theory Spec2Isabelle
  imports Main "HOL-Library.AList" "HOL-Library.Multiset"
begin

section \<open>Python values\<close>

text \<open>
  Effects and contexts arrive as decoded JSON. The values of the model are the Python
  values built from \<open>None\<close>, booleans, integers, strings, lists and dicts (floats are
  left out). A string is the list of its characters. A dict is an association list in
  insertion order; its keys are values, as in Python, and only hashable ones (no list,
  no dict) can be stored.
\<close>

datatype val =
    VNone
  | VBool bool
  | VInt int
  | VStr string
  | VList "val list"
  | VDict "(val \<times> val) list"

datatype py_error =
    IndexError | KeyError | TypeError | AttributeError | ValueError
  | BaseException \<comment> \<open>an exception that is not an instance of \<open>Exception\<close>\<close>

type_synonym pydict = "(val \<times> val) list"

text \<open>
  Attribute lookup on a value that is not a dict is part of the Python runtime, not of
  the repository: \<open>ga v name\<close> is the attribute \<open>name\<close> of \<open>v\<close> when it has one
  (\<open>(5).real\<close>, say), and \<open>None\<close> otherwise, where \<open>getattr(v, name, d)\<close> yields \<open>d\<close>.
\<close>

type_synonym attrs = "val \<Rightarrow> string \<Rightarrow> val option"

definition no_attrs :: attrs where
  "no_attrs v name = None"

definition bind_err :: "py_error + 'a \<Rightarrow> ('a \<Rightarrow> py_error + 'b) \<Rightarrow> py_error + 'b" where
  "bind_err m f = (case m of Inl e \<Rightarrow> Inl e | Inr x \<Rightarrow> f x)"

text \<open>Truth value testing: \<open>if v:\<close>, \<open>v or w\<close>, \<open>not v\<close>.\<close>

fun py_truthy :: "val \<Rightarrow> bool" where
  "py_truthy VNone = False"
| "py_truthy (VBool b) = b"
| "py_truthy (VInt i) = (i \<noteq> 0)"
| "py_truthy (VStr s) = (s \<noteq> [])"
| "py_truthy (VList xs) = (xs \<noteq> [])"
| "py_truthy (VDict d) = (d \<noteq> [])"

fun hashable :: "val \<Rightarrow> bool" where
  "hashable (VList xs) = False"
| "hashable (VDict d) = False"
| "hashable v = True"

text \<open>
  Two hashable values are the same dict key when Python's \<open>==\<close> holds between them:
  \<open>True\<close> and \<open>1\<close> are one key, \<open>False\<close> and \<open>0\<close> another.
\<close>

fun key_norm :: "val \<Rightarrow> val" where
  "key_norm (VBool b) = VInt (if b then 1 else 0)"
| "key_norm v = v"

definition key_eq :: "val \<Rightarrow> val \<Rightarrow> bool" where
  "key_eq a b = (key_norm a = key_norm b)"

text \<open>\<open>d.get(k)\<close> as an option, \<open>d[k] = v\<close> and \<open>del d[k]\<close> for a hashable \<open>k\<close>.\<close>

fun dict_lookup :: "(val \<times> 'a) list \<Rightarrow> val \<Rightarrow> 'a option" where
  "dict_lookup [] k = None"
| "dict_lookup ((k', v) # d) k = (if key_eq k' k then Some v else dict_lookup d k)"

fun dict_put :: "(val \<times> 'a) list \<Rightarrow> val \<Rightarrow> 'a \<Rightarrow> (val \<times> 'a) list" where
  "dict_put [] k v = [(k, v)]"
| "dict_put ((k', v') # d) k v =
     (if key_eq k' k then (k', v) # d else (k', v') # dict_put d k v)"

fun dict_del :: "(val \<times> 'a) list \<Rightarrow> val \<Rightarrow> (val \<times> 'a) list" where
  "dict_del [] k = []"
| "dict_del ((k', v) # d) k = (if key_eq k' k then dict_del d k else (k', v) # dict_del d k)"

definition dict_get :: "pydict \<Rightarrow> val \<Rightarrow> val" where
  "dict_get d k = (case dict_lookup d k of None \<Rightarrow> VNone | Some v \<Rightarrow> v)"

definition getattr_default :: "attrs \<Rightarrow> val \<Rightarrow> string \<Rightarrow> val \<Rightarrow> val" where
  "getattr_default ga obj name dflt = (case ga obj name of None \<Rightarrow> dflt | Some v \<Rightarrow> v)"

text \<open>\<open>xs[i]\<close> for a constant index \<open>i \<ge> 0\<close>.\<close>

definition py_index :: "'a list \<Rightarrow> nat \<Rightarrow> py_error + 'a" where
  "py_index xs i = (if i < length xs then Inr (xs ! i) else Inl IndexError)"

text \<open>Python's \<open>==\<close> on values.\<close>

fun py_eq :: "val \<Rightarrow> val \<Rightarrow> bool"
  and py_eq_list :: "val list \<Rightarrow> val list \<Rightarrow> bool"
  and py_eq_items :: "pydict \<Rightarrow> pydict \<Rightarrow> bool" where
  "py_eq VNone VNone = True"
| "py_eq (VBool a) (VBool b) = (a = b)"
| "py_eq (VBool a) (VInt j) = ((if a then 1 else 0) = j)"
| "py_eq (VInt i) (VBool b) = (i = (if b then 1 else 0))"
| "py_eq (VInt i) (VInt j) = (i = j)"
| "py_eq (VStr s) (VStr t) = (s = t)"
| "py_eq (VList xs) (VList ys) = py_eq_list xs ys"
| "py_eq (VDict a) (VDict b) = (length a = length b \<and> py_eq_items a b)"
| "py_eq _ _ = False"
| "py_eq_list [] [] = True"
| "py_eq_list (x # xs) (y # ys) = (py_eq x y \<and> py_eq_list xs ys)"
| "py_eq_list _ _ = False"
| "py_eq_items [] b = True"
| "py_eq_items ((k, v) # a) b =
     (case dict_lookup b k of None \<Rightarrow> False | Some w \<Rightarrow> py_eq v w \<and> py_eq_items a b)"

section \<open>Strings\<close>

definition starts_with :: "string \<Rightarrow> string \<Rightarrow> bool" where
  "starts_with p s = (take (length p) s = p)"

text \<open>\<open>s.split(c)\<close>: always at least one part.\<close>

fun split_on :: "char \<Rightarrow> string \<Rightarrow> string list" where
  "split_on c [] = [[]]"
| "split_on c (x # xs) =
     (if x = c then [] # split_on c xs
      else (case split_on c xs of [] \<Rightarrow> [[x]] | p # ps \<Rightarrow> (x # p) # ps))"

section \<open>Bindings (core/bindings.py)\<close>

text \<open>The loop of \<open>resolve_binding\<close> over \<open>parts[1:]\<close>.\<close>

fun resolve_loop :: "attrs \<Rightarrow> val \<Rightarrow> string list \<Rightarrow> val" where
  "resolve_loop ga result [] = result"
| "resolve_loop ga result (part # parts) =
     (if result = VNone then VNone
      else (case result of
              VDict d \<Rightarrow> resolve_loop ga (dict_get d (VStr part)) parts
            | _ \<Rightarrow> resolve_loop ga (getattr_default ga result part VNone) parts))"

definition resolve_binding :: "attrs \<Rightarrow> val \<Rightarrow> pydict \<Rightarrow> py_error + val" where
  "resolve_binding ga value context =
     (case value of
        VStr s \<Rightarrow>
          if \<not> starts_with ''@'' s then Inr value
          else bind_err (py_index (split_on CHR ''.'' (drop 1 s)) 0) (\<lambda>root.
                 case dict_lookup context (VStr root) of
                   None \<Rightarrow> Inr VNone
                 | Some r \<Rightarrow> Inr (resolve_loop ga r (drop 1 (split_on CHR ''.'' (drop 1 s)))))
      | _ \<Rightarrow> Inr value)"

text \<open>
  The walk as the specification words it: one step per segment, key lookup on a map,
  attribute lookup on anything else, both defaulting to null, and null absorbing.
\<close>

definition spec_step :: "attrs \<Rightarrow> val \<Rightarrow> string \<Rightarrow> val" where
  "spec_step ga cur seg =
     (case cur of
        VNone \<Rightarrow> VNone
      | VDict d \<Rightarrow> (case dict_lookup d (VStr seg) of None \<Rightarrow> VNone | Some v \<Rightarrow> v)
      | _ \<Rightarrow> (case ga cur seg of None \<Rightarrow> VNone | Some v \<Rightarrow> v))"

definition spec_walk :: "attrs \<Rightarrow> val \<Rightarrow> string list \<Rightarrow> val" where
  "spec_walk ga start segs = foldl (spec_step ga) start segs"

definition spec_resolve :: "attrs \<Rightarrow> string \<Rightarrow> string list \<Rightarrow> pydict \<Rightarrow> val" where
  "spec_resolve ga root segs context =
     (case dict_lookup context (VStr root) of
        None \<Rightarrow> VNone
      | Some r \<Rightarrow> spec_walk ga r segs)"

section \<open>Storage (core/repository.py)\<close>

text \<open>\<open>s.replace(p, "")\<close>: every occurrence of \<open>p\<close> is taken out, left to right.\<close>

fun remove_all :: "string \<Rightarrow> string \<Rightarrow> string" where
  "remove_all p [] = []"
| "remove_all p (x # xs) =
     (if p \<noteq> [] \<and> starts_with p (x # xs) then remove_all p (drop (length p) (x # xs))
      else x # remove_all p xs)"

text \<open>
  \<open>InMemoryRepository._store\<close>: entity type to entity id to entity, both levels in
  insertion order. The entities stored are dicts: \<open>create\<close> and the upsert build one,
  and an update mutates the one that is there.
\<close>

type_synonym store = "(val \<times> (val \<times> pydict) list) list"

definition entities_of :: "store \<Rightarrow> val \<Rightarrow> (val \<times> pydict) list" where
  "entities_of s entity_type = (case dict_lookup s entity_type of None \<Rightarrow> [] | Some ents \<Rightarrow> ents)"

definition mem_get :: "store \<Rightarrow> val \<Rightarrow> val \<Rightarrow> py_error + val" where
  "mem_get s entity_type entity_id =
     (if \<not> hashable entity_type then Inl TypeError
      else if \<not> hashable entity_id then Inl TypeError
      else Inr (case dict_lookup (entities_of s entity_type) entity_id of
                  None \<Rightarrow> VNone
                | Some e \<Rightarrow> VDict e))"

definition apply_filter :: "pydict list \<Rightarrow> val \<Rightarrow> pydict \<Rightarrow> py_error + pydict list" where
  "apply_filter entities filter_expr context =
     (case filter_expr of
        VList fe \<Rightarrow>
          if fe = [] then Inr entities
          else bind_err (py_index fe 0) (\<lambda>opr.
            if opr = VStr ''='' then
              bind_err (py_index fe 1) (\<lambda>field_path.
              bind_err (py_index fe 2) (\<lambda>expected_value.
                case field_path of
                  VStr fp \<Rightarrow>
                    if starts_with ''@entity.'' fp then
                      Inr (filter (\<lambda>e. py_eq (dict_get e (VStr (remove_all ''@entity.'' fp)))
                                           expected_value) entities)
                    else Inr entities
                | _ \<Rightarrow> Inr entities))
            else Inr entities)
      | _ \<Rightarrow> Inr entities)"

text \<open>
  \<open>context\<close> defaults to \<open>None\<close> in \<open>list\<close>; the filter is applied only when both the
  filter expression and the context are truthy.
\<close>

definition mem_list ::
  "store \<Rightarrow> val \<Rightarrow> val \<Rightarrow> pydict option \<Rightarrow> py_error + pydict list" where
  "mem_list s entity_type filter_expr context =
     (if \<not> hashable entity_type then Inl TypeError
      else (let entities = map snd (entities_of s entity_type) in
        case context of
          None \<Rightarrow> Inr entities
        | Some c \<Rightarrow>
            if py_truthy filter_expr \<and> c \<noteq> [] then apply_filter entities filter_expr c
            else Inr entities))"

text \<open>\<open>fresh\<close> is the string \<open>str(uuid.uuid4())\<close> would give.\<close>

definition mem_create :: "store \<Rightarrow> val \<Rightarrow> val \<Rightarrow> string \<Rightarrow> py_error + (val \<times> store)" where
  "mem_create s entity_type dat fresh =
     (case dat of
        VDict d \<Rightarrow>
          (let entity_id = (if py_truthy (dict_get d (VStr ''id'')) then dict_get d (VStr ''id'')
                            else VStr fresh);
               e = dict_put d (VStr ''id'') entity_id
           in if \<not> hashable entity_type then Inl TypeError
              else if \<not> hashable entity_id then Inl TypeError
              else Inr (VDict e,
                        dict_put s entity_type (dict_put (entities_of s entity_type) entity_id e)))
      | _ \<Rightarrow> Inl AttributeError)"

text \<open>
  \<open>d.update(other)\<close>. A dict is merged key by key; any other argument is iterated as a
  sequence of pairs, each item itself a sequence of length two.
\<close>

fun pair_of_item :: "val \<Rightarrow> py_error + (val \<times> val)" where
  "pair_of_item (VList [k, v]) = (if hashable k then Inr (k, v) else Inl TypeError)"
| "pair_of_item (VList xs) = Inl ValueError"
| "pair_of_item (VStr [a, b]) = Inr (VStr [a], VStr [b])"
| "pair_of_item (VStr s) = Inl ValueError"
| "pair_of_item (VDict [(k1, v1), (k2, v2)]) = Inr (k1, k2)"
| "pair_of_item (VDict d) = Inl ValueError"
| "pair_of_item v = Inl TypeError"

fun update_pairs :: "pydict \<Rightarrow> val list \<Rightarrow> py_error + pydict" where
  "update_pairs d [] = Inr d"
| "update_pairs d (x # xs) =
     bind_err (pair_of_item x) (\<lambda>(k, v). update_pairs (dict_put d k v) xs)"

definition py_dict_update :: "pydict \<Rightarrow> val \<Rightarrow> py_error + pydict" where
  "py_dict_update d other =
     (case other of
        VDict items \<Rightarrow> Inr (foldl (\<lambda>acc (k, v). dict_put acc k v) d items)
      | VList xs \<Rightarrow> update_pairs d xs
      | VStr s \<Rightarrow> (if s = [] then Inr d else Inl ValueError)
      | _ \<Rightarrow> Inl TypeError)"

text \<open>
  \<open>update\<close> first gives a type that is not in the store an empty dict; \<open>entities_of\<close>
  is empty for such a type, and \<open>dict_put\<close> adds it at the end of the store.
\<close>

definition mem_update :: "store \<Rightarrow> val \<Rightarrow> val \<Rightarrow> val \<Rightarrow> py_error + (val \<times> store)" where
  "mem_update s entity_type entity_id dat =
     (if \<not> hashable entity_type then Inl TypeError
      else if \<not> hashable entity_id then Inl TypeError
      else (case dict_lookup (entities_of s entity_type) entity_id of
              Some existing \<Rightarrow>
                bind_err (py_dict_update existing dat) (\<lambda>e.
                  Inr (VDict e,
                       dict_put s entity_type (dict_put (entities_of s entity_type) entity_id e)))
            | None \<Rightarrow>
                (case dat of
                   VDict d \<Rightarrow>
                     (let e = dict_put d (VStr ''id'') entity_id
                      in Inr (VDict e,
                              dict_put s entity_type
                                (dict_put (entities_of s entity_type) entity_id e)))
                 | _ \<Rightarrow> Inl TypeError)))"

definition mem_delete :: "store \<Rightarrow> val \<Rightarrow> val \<Rightarrow> py_error + (bool \<times> store)" where
  "mem_delete s entity_type entity_id =
     (if \<not> hashable entity_type then Inl TypeError
      else (case dict_lookup s entity_type of
              None \<Rightarrow> Inr (False, s)
            | Some ents \<Rightarrow>
                if \<not> hashable entity_id then Inl TypeError
                else if dict_lookup ents entity_id \<noteq> None
                  then Inr (True, dict_put s entity_type (dict_del ents entity_id))
                else Inr (False, s)))"

section \<open>Effect executor (core/effect_executor.py)\<close>

text \<open>
  The executor holds a \<open>Repository\<close>, the abstract interface: its five methods are
  parameters here, over any repository state \<open>'r\<close>. Each takes the arguments as the
  executor passes them, unchecked values, and returns its result with the new state,
  or raises.
\<close>

record 'r repository_ops =
  repo_get :: "'r \<Rightarrow> val \<Rightarrow> val \<Rightarrow> py_error + (val \<times> 'r)"
  repo_list :: "'r \<Rightarrow> val \<Rightarrow> val \<Rightarrow> pydict \<Rightarrow> py_error + (val \<times> 'r)"
  repo_create :: "'r \<Rightarrow> val \<Rightarrow> val \<Rightarrow> py_error + (val \<times> 'r)"
  repo_update :: "'r \<Rightarrow> val \<Rightarrow> val \<Rightarrow> val \<Rightarrow> py_error + (val \<times> 'r)"
  repo_delete :: "'r \<Rightarrow> val \<Rightarrow> val \<Rightarrow> py_error + (val \<times> 'r)"

text \<open>
  \<open>InMemoryRepository\<close> behind that interface. Its state is the store and a counter
  from which the next identifier is drawn: \<open>uuid n\<close> stands for what
  \<open>str(uuid.uuid4())\<close> gives at count \<open>n\<close>.
\<close>

definition in_memory :: "(nat \<Rightarrow> string) \<Rightarrow> (store \<times> nat) repository_ops" where
  "in_memory uuid =
     \<lparr> repo_get = (\<lambda>(s, n) entity_type entity_id.
         bind_err (mem_get s entity_type entity_id) (\<lambda>e. Inr (e, (s, n)))),
       repo_list = (\<lambda>(s, n) entity_type filter_expr context.
         bind_err (mem_list s entity_type filter_expr (Some context)) (\<lambda>es.
           Inr (VList (map VDict es), (s, n)))),
       repo_create = (\<lambda>(s, n) entity_type dat.
         bind_err (mem_create s entity_type dat (uuid n)) (\<lambda>(e, s').
           Inr (e, (s', Suc n)))),
       repo_update = (\<lambda>(s, n) entity_type entity_id dat.
         bind_err (mem_update s entity_type entity_id dat) (\<lambda>(e, s'). Inr (e, (s', n)))),
       repo_delete = (\<lambda>(s, n) entity_type entity_id.
         bind_err (mem_delete s entity_type entity_id) (\<lambda>(b, s'). Inr (VBool b, (s', n)))) \<rparr>"

definition test_uuid :: "nat \<Rightarrow> string" where
  "test_uuid n = ''uuid-'' @ replicate n CHR ''x''"

text \<open>
  The compute subsystem behind the \<open>nn/\<close> and \<open>train/\<close> tags is outside this core:
  whether its modules import, and what its two operations return, are parameters.
\<close>

record torch_ops =
  torch_importable :: bool
  nn_forward :: "val \<Rightarrow> val \<Rightarrow> py_error + val"
  train_loop :: "val \<Rightarrow> val \<Rightarrow> val \<Rightarrow> py_error + val"

definition no_torch :: torch_ops where
  "no_torch = \<lparr> torch_importable = False,
                nn_forward = (\<lambda>m x. Inr VNone),
                train_loop = (\<lambda>m d c. Inr VNone) \<rparr>"

record 'r executor =
  repository :: 'r
  data :: pydict
  client_effects :: "val list"
  effect_results :: "val list"

text \<open>
  A result of the executor: the value returned, the executor after the call and the
  context after the call (the \<open>set\<close> effect mutates the context in place). A raise
  ends the request; the model does not follow the state after it.
\<close>

type_synonym 'r exec_result = "py_error + (val \<times> 'r executor \<times> pydict)"

text \<open>\<open>"id" in options\<close>, \<open>options["id"]\<close> and \<open>options.get("filter")\<close> on any value.\<close>

fun contains_sub :: "string \<Rightarrow> string \<Rightarrow> bool" where
  "contains_sub p [] = (p = [])"
| "contains_sub p (x # xs) = (starts_with p (x # xs) \<or> contains_sub p xs)"

definition py_contains_str :: "string \<Rightarrow> val \<Rightarrow> py_error + bool" where
  "py_contains_str k container =
     (case container of
        VDict d \<Rightarrow> Inr (dict_lookup d (VStr k) \<noteq> None)
      | VList xs \<Rightarrow> Inr (list_ex (\<lambda>x. py_eq x (VStr k)) xs)
      | VStr s \<Rightarrow> Inr (contains_sub k s)
      | _ \<Rightarrow> Inl TypeError)"

definition py_getitem_str :: "val \<Rightarrow> string \<Rightarrow> py_error + val" where
  "py_getitem_str container k =
     (case container of
        VDict d \<Rightarrow> (case dict_lookup d (VStr k) of None \<Rightarrow> Inl KeyError | Some v \<Rightarrow> Inr v)
      | _ \<Rightarrow> Inl TypeError)"

definition py_get_method :: "val \<Rightarrow> string \<Rightarrow> py_error + val" where
  "py_get_method container k =
     (case container of
        VDict d \<Rightarrow> Inr (dict_get d (VStr k))
      | _ \<Rightarrow> Inl AttributeError)"

definition dict_set :: "pydict \<Rightarrow> val \<Rightarrow> val \<Rightarrow> py_error + pydict" where
  "dict_set d k v = (if hashable k then Inr (dict_put d k v) else Inl TypeError)"

definition execute_fetch ::
  "attrs \<Rightarrow> 'r repository_ops \<Rightarrow> 'r executor \<Rightarrow> val list \<Rightarrow> pydict \<Rightarrow> 'r exec_result" where
  "execute_fetch ga ops ex effect context =
     bind_err (py_index effect 1) (\<lambda>entity_type.
     let options = (if length effect > 2 then effect ! 2 else VDict []) in
     bind_err (py_contains_str ''id'' options) (\<lambda>has_id.
       if has_id then
         bind_err (py_getitem_str options ''id'') (\<lambda>id_expr.
         bind_err (resolve_binding ga id_expr context) (\<lambda>entity_id.
         bind_err (repo_get ops (repository ex) entity_type entity_id) (\<lambda>(result, r).
         bind_err (dict_set (data ex) entity_type result) (\<lambda>d.
           Inr (dict_get d entity_type, ex\<lparr>repository := r, data := d\<rparr>, context)))))
       else
         bind_err (py_get_method options ''filter'') (\<lambda>filter_expr.
         bind_err (repo_list ops (repository ex) entity_type filter_expr context) (\<lambda>(results, r).
         bind_err (dict_set (data ex) entity_type results) (\<lambda>d.
           Inr (dict_get d entity_type, ex\<lparr>repository := r, data := d\<rparr>, context))))))"

definition persist_result :: "val \<Rightarrow> val \<Rightarrow> val \<Rightarrow> val" where
  "persist_result action entity_type result =
     VDict [(VStr ''effect'', VStr ''persist''),
            (VStr ''action'', action),
            (VStr ''entityType'', entity_type),
            (VStr ''data'', result),
            (VStr ''success'', VBool (result \<noteq> VNone))]"

definition execute_persist ::
  "attrs \<Rightarrow> 'r repository_ops \<Rightarrow> 'r executor \<Rightarrow> val list \<Rightarrow> pydict \<Rightarrow> 'r exec_result" where
  "execute_persist ga ops ex effect context =
     bind_err (py_index effect 1) (\<lambda>action.
     bind_err (py_index effect 2) (\<lambda>entity_type.
     bind_err (if length effect > 3 then resolve_binding ga (effect ! 3) context
               else Inr (VDict [])) (\<lambda>dat.
     bind_err
       (if action = VStr ''create'' then repo_create ops (repository ex) entity_type dat
        else if action = VStr ''update'' then
          (let entity_id =
                 (if py_truthy (dict_get context (VStr ''entityId''))
                  then dict_get context (VStr ''entityId'')
                  else (case dat of VDict d \<Rightarrow> dict_get d (VStr ''id'') | _ \<Rightarrow> VNone))
           in if py_truthy entity_id
              then repo_update ops (repository ex) entity_type entity_id dat
              else Inr (VNone, repository ex))
        else if action = VStr ''delete'' then
          (let entity_id = dict_get context (VStr ''entityId'')
           in if py_truthy entity_id
              then bind_err (repo_delete ops (repository ex) entity_type entity_id) (\<lambda>(b, r).
                     Inr (VDict [(VStr ''deleted'', VBool True), (VStr ''id'', entity_id)], r))
              else Inr (VNone, repository ex))
        else Inr (VNone, repository ex))
       (\<lambda>(result, r).
          Inr (result,
               ex\<lparr>repository := r,
                  effect_results :=
                    effect_results ex @ [persist_result action entity_type result]\<rparr>,
               context)))))"

definition execute_call_service ::
  "attrs \<Rightarrow> 'r executor \<Rightarrow> val list \<Rightarrow> pydict \<Rightarrow> 'r exec_result" where
  "execute_call_service ga ex effect context =
     bind_err (py_index effect 1) (\<lambda>service.
     bind_err (py_index effect 2) (\<lambda>method.
     bind_err (if length effect > 3 then resolve_binding ga (effect ! 3) context
               else Inr (VDict [])) (\<lambda>args.
       let result = VDict [(VStr ''service'', service),
                           (VStr ''method'', method),
                           (VStr ''status'', VStr ''not_implemented'')]
       in Inr (result,
               ex\<lparr>effect_results :=
                    effect_results ex @
                      [VDict [(VStr ''effect'', VStr ''call_service''),
                              (VStr ''service'', service),
                              (VStr ''method'', method),
                              (VStr ''data'', result),
                              (VStr ''success'', VBool False)]]\<rparr>,
               context))))"

text \<open>
  The \<open>set\<close> effect. \<open>navigate\<close> is the loop over \<open>parts[1:-1]\<close>; a missing hop
  yields a fresh empty dict that nothing else refers to.
\<close>

fun navigate :: "attrs \<Rightarrow> val \<Rightarrow> string list \<Rightarrow> val" where
  "navigate ga obj [] = obj"
| "navigate ga obj (part # parts) =
     (case obj of
        VDict d \<Rightarrow>
          navigate ga (case dict_lookup d (VStr part) of None \<Rightarrow> VDict [] | Some v \<Rightarrow> v) parts
      | _ \<Rightarrow> navigate ga (getattr_default ga obj part (VDict [])) parts)"

text \<open>
  The context is a tree of values, so the in-place assignment at the end of the walk
  is written as the new value of the root object. Only an assignment reached through
  keys that exist changes the root; one into the fresh dict of a missing hop, or
  behind an attribute, does not. (Two roots sharing one object are not modelled.)
\<close>

fun store_path :: "val \<Rightarrow> string list \<Rightarrow> string \<Rightarrow> val \<Rightarrow> val" where
  "store_path obj [] final_field v =
     (case obj of VDict d \<Rightarrow> VDict (dict_put d (VStr final_field) v) | _ \<Rightarrow> obj)"
| "store_path obj (part # parts) final_field v =
     (case obj of
        VDict d \<Rightarrow>
          (case dict_lookup d (VStr part) of
             None \<Rightarrow> obj
           | Some child \<Rightarrow> VDict (dict_put d (VStr part) (store_path child parts final_field v)))
      | _ \<Rightarrow> obj)"

text \<open>
  \<open>setattr\<close> on \<open>None\<close>, a boolean, an integer, a string or a list raises: these have
  no writable attribute.
\<close>

definition setattr_error :: "string \<Rightarrow> py_error" where
  "setattr_error name = (if name = ''__class__'' then TypeError else AttributeError)"

definition set_target :: "attrs \<Rightarrow> val \<Rightarrow> val \<Rightarrow> pydict \<Rightarrow> py_error + pydict" where
  "set_target ga target v context =
     (case target of
        VStr s \<Rightarrow>
          if starts_with ''@'' s then
            (let parts = split_on CHR ''.'' (drop 1 s) in
             bind_err (py_index parts 0) (\<lambda>root.
               case dict_lookup context (VStr root) of
                 None \<Rightarrow> Inr context
               | Some obj0 \<Rightarrow>
                   if length parts > 1 then
                     (case navigate ga obj0 (butlast (drop 1 parts)) of
                        VDict d \<Rightarrow>
                          Inr (dict_put context (VStr root)
                                 (store_path obj0 (butlast (drop 1 parts)) (last parts) v))
                      | _ \<Rightarrow> Inl (setattr_error (last parts)))
                   else Inr context))
          else Inr context
      | _ \<Rightarrow> Inr context)"

definition set_result :: "val \<Rightarrow> val \<Rightarrow> val" where
  "set_result target v =
     VDict [(VStr ''effect'', VStr ''set''),
            (VStr ''target'', target),
            (VStr ''value'', v),
            (VStr ''success'', VBool True)]"

definition execute_set ::
  "attrs \<Rightarrow> 'r executor \<Rightarrow> val list \<Rightarrow> pydict \<Rightarrow> 'r exec_result" where
  "execute_set ga ex effect context =
     bind_err (py_index effect 1) (\<lambda>target.
     bind_err (if length effect > 2 then resolve_binding ga (effect ! 2) context
               else Inr VNone) (\<lambda>v.
     bind_err (set_target ga target v context) (\<lambda>context'.
       Inr (v, ex\<lparr>effect_results := effect_results ex @ [set_result target v]\<rparr>, context'))))"

definition execute_pytorch ::
  "attrs \<Rightarrow> torch_ops \<Rightarrow> val list \<Rightarrow> pydict \<Rightarrow> py_error + val" where
  "execute_pytorch ga torch effect context =
     bind_err (py_index effect 0) (\<lambda>opr.
       if \<not> torch_importable torch then Inr VNone
       else if opr = VStr ''nn/forward'' then
         bind_err (py_index effect 1) (\<lambda>a1.
         bind_err (resolve_binding ga a1 context) (\<lambda>module.
         bind_err (py_index effect 2) (\<lambda>a2.
         bind_err (resolve_binding ga a2 context) (\<lambda>input_tensor.
           nn_forward torch module input_tensor))))
       else if opr = VStr ''train/loop'' then
         bind_err (py_index effect 1) (\<lambda>a1.
         bind_err (resolve_binding ga a1 context) (\<lambda>module.
         bind_err (py_index effect 2) (\<lambda>a2.
         bind_err (resolve_binding ga a2 context) (\<lambda>dat.
         bind_err (py_index effect 3) (\<lambda>a3.
         bind_err (resolve_binding ga a3 context) (\<lambda>config.
           train_loop torch module dat config))))))
       else Inr VNone)"

definition execute_tensor :: "val list \<Rightarrow> pydict \<Rightarrow> py_error + val" where
  "execute_tensor effect context = Inr VNone"

definition collect_client_effect :: "'r executor \<Rightarrow> val list \<Rightarrow> 'r executor" where
  "collect_client_effect ex effect = ex\<lparr>client_effects := client_effects ex @ [VList effect]\<rparr>"

definition execute ::
  "attrs \<Rightarrow> 'r repository_ops \<Rightarrow> torch_ops \<Rightarrow> 'r executor \<Rightarrow> val list \<Rightarrow> pydict
     \<Rightarrow> 'r exec_result" where
  "execute ga ops torch ex effect context =
     (if effect = [] then Inr (VNone, ex, context)
      else bind_err (py_index effect 0) (\<lambda>effect_type.
        if effect_type = VStr ''fetch'' then execute_fetch ga ops ex effect context
        else if effect_type = VStr ''persist'' then execute_persist ga ops ex effect context
        else if effect_type = VStr ''call_service'' then execute_call_service ga ex effect context
        else if effect_type = VStr ''set'' then execute_set ga ex effect context
        else if effect_type = VStr ''render_ui'' \<or> effect_type = VStr ''render-ui''
          then Inr (VNone, collect_client_effect ex effect, context)
        else if effect_type = VStr ''navigate''
          then Inr (VNone, collect_client_effect ex effect, context)
        else if effect_type = VStr ''notify''
          then Inr (VNone, collect_client_effect ex effect, context)
        else if effect_type = VStr ''emit''
          then Inr (VNone, collect_client_effect ex effect, context)
        else (case effect_type of
                VStr t \<Rightarrow>
                  if starts_with ''nn/'' t \<or> starts_with ''train/'' t then
                    bind_err (execute_pytorch ga torch effect context) (\<lambda>v. Inr (v, ex, context))
                  else if starts_with ''tensor/'' t then
                    bind_err (execute_tensor effect context) (\<lambda>v. Inr (v, ex, context))
                  else Inr (VNone, ex, context)
              | _ \<Rightarrow> Inl AttributeError)))"

definition new_executor :: "'r \<Rightarrow> 'r executor" where
  "new_executor r = \<lparr> repository = r, data = [], client_effects = [], effect_results = [] \<rparr>"

section \<open>Event bus (core/event_bus.py)\<close>

text \<open>
  A handler is a callable: it is named by a number (two subscriptions are equal when
  event, handler and flag are). What it does when called is given by an environment:
  from the payload and a world state \<open>'w\<close> of its own, it yields how the call ends, the
  new world state, and the calls it made on the bus meanwhile (\<open>subscribe\<close>, an
  unsubscribe token, \<open>clear\<close>), in order. A call ends by returning, by raising an instance
  of \<open>Exception\<close>, or by raising outside \<open>Exception\<close> (\<open>SystemExit\<close>,
  \<open>KeyboardInterrupt\<close>, a task cancellation). A handler that awaits \<open>emit\<close> itself is
  not modelled.
\<close>

datatype handler_outcome = Returned | Raised | RaisedBase

record subscription =
  event :: string
  handler :: nat
  once :: bool

record event_bus =
  subscriptions :: "(string \<times> subscription list) list"

datatype bus_action =
    Subscribe string nat bool
  | Unsubscribe subscription
  | Clear "string option"

type_synonym 'w handlers = "nat \<Rightarrow> pydict \<Rightarrow> 'w \<Rightarrow> handler_outcome \<times> 'w \<times> bus_action list"

definition new_event_bus :: event_bus where
  "new_event_bus = \<lparr> subscriptions = [] \<rparr>"

definition subscriptions_for :: "event_bus \<Rightarrow> string \<Rightarrow> subscription list" where
  "subscriptions_for bus ev = (case map_of (subscriptions bus) ev of None \<Rightarrow> [] | Some l \<Rightarrow> l)"

definition subscribe :: "event_bus \<Rightarrow> string \<Rightarrow> nat \<Rightarrow> bool \<Rightarrow> event_bus" where
  "subscribe bus ev h flag =
     bus\<lparr>subscriptions :=
           AList.update ev (subscriptions_for bus ev @ [\<lparr> event = ev, handler = h, once = flag \<rparr>])
             (subscriptions bus)\<rparr>"

text \<open>The token \<open>subscribe\<close> returns: it rebinds the event's list to a filtered copy.\<close>

definition unsubscribe :: "event_bus \<Rightarrow> string \<Rightarrow> subscription \<Rightarrow> event_bus" where
  "unsubscribe bus ev sub =
     (case map_of (subscriptions bus) ev of
        None \<Rightarrow> bus
      | Some l \<Rightarrow>
          bus\<lparr>subscriptions := AList.update ev (filter (\<lambda>s. s \<noteq> sub) l) (subscriptions bus)\<rparr>)"

text \<open>\<open>clear(event)\<close>: one event when the name is truthy, every event otherwise.\<close>

definition clear :: "event_bus \<Rightarrow> string option \<Rightarrow> event_bus" where
  "clear bus ev =
     (case ev of
        Some e \<Rightarrow>
          if e \<noteq> [] then bus\<lparr>subscriptions := AList.delete e (subscriptions bus)\<rparr>
          else bus\<lparr>subscriptions := []\<rparr>
      | None \<Rightarrow> bus\<lparr>subscriptions := []\<rparr>)"

text \<open>\<open>payload or {}\<close>.\<close>

definition payload_or_empty :: "pydict option \<Rightarrow> pydict" where
  "payload_or_empty payload = (case payload of None \<Rightarrow> [] | Some p \<Rightarrow> p)"

text \<open>
  The state of the first loop of \<open>emit\<close>, \<open>for sub in self._subscriptions[event]\<close>. The
  loop walks one list object: \<open>remaining\<close> is the part of it not yet visited, and
  \<open>attached\<close> says whether the bus still holds that object for the event. While it
  does, a \<open>subscribe\<close> to the event appends to the list under iteration; an unsubscribe
  token of the event rebinds the entry to a new list and \<open>clear\<close> pops it, and the loop
  goes on over the old one.
\<close>

record 'w emit_loop =
  remaining :: "subscription list"
  attached :: bool
  bus_now :: event_bus
  world :: 'w
  to_remove :: "subscription list"
  calls :: "(nat \<times> pydict) list"
  propagated :: bool

definition emit_start :: "event_bus \<Rightarrow> subscription list \<Rightarrow> 'w \<Rightarrow> 'w emit_loop" where
  "emit_start bus subs w =
     \<lparr> remaining = subs, attached = True, bus_now = bus, world = w,
       to_remove = [], calls = [], propagated = False \<rparr>"

fun act_on :: "string \<Rightarrow> bus_action \<Rightarrow> 'w emit_loop \<Rightarrow> 'w emit_loop" where
  "act_on ev (Subscribe e h flag) st =
     st\<lparr>bus_now := subscribe (bus_now st) e h flag,
        remaining := (if e = ev \<and> attached st
                      then remaining st @ [\<lparr> event = e, handler = h, once = flag \<rparr>]
                      else remaining st)\<rparr>"
| "act_on ev (Unsubscribe sub) st =
     st\<lparr>bus_now := unsubscribe (bus_now st) (event sub) sub,
        attached := (attached st \<and> event sub \<noteq> ev)\<rparr>"
| "act_on ev (Clear e) st =
     st\<lparr>bus_now := clear (bus_now st) e,
        attached := (attached st \<and> (case e of Some s \<Rightarrow> s \<noteq> [] \<and> s \<noteq> ev | None \<Rightarrow> False))\<rparr>"

text \<open>
  One iteration. The handler is called with the payload; a subscription marked \<open>once\<close>
  is noted for removal inside the \<open>try\<close>, after the call, so only when the call
  returned; \<open>except Exception\<close> catches an instance of \<open>Exception\<close> and the loop goes on;
  anything else leaves the loop and \<open>emit\<close>.
\<close>

definition emit_step :: "'w handlers \<Rightarrow> string \<Rightarrow> pydict \<Rightarrow> 'w emit_loop \<Rightarrow> 'w emit_loop" where
  "emit_step H ev arg st =
     (case remaining st of
        [] \<Rightarrow> st
      | sub # rest \<Rightarrow>
          if propagated st then st
          else (case H (handler sub) arg (world st) of
                  (out, w1, acts) \<Rightarrow>
                    (let st1 = fold (act_on ev) acts
                                 (st\<lparr>remaining := rest, world := w1,
                                     calls := calls st @ [(handler sub, arg)]\<rparr>)
                     in case out of
                          Returned \<Rightarrow>
                            st1\<lparr>to_remove := to_remove st1 @ (if once sub then [sub] else [])\<rparr>
                        | Raised \<Rightarrow> st1
                        | RaisedBase \<Rightarrow> st1\<lparr>propagated := True\<rparr>)))"

text \<open>
  The second loop, \<open>self._subscriptions[event].remove(sub)\<close> for each noted
  subscription: the entry is read again each time (\<open>KeyError\<close> when it is gone) and
  \<open>list.remove\<close> raises \<open>ValueError\<close> when the item is not there. The result is what was
  raised, if anything, and the bus as left.
\<close>

fun remove_subs :: "string \<Rightarrow> subscription list \<Rightarrow> event_bus \<Rightarrow> py_error option \<times> event_bus" where
  "remove_subs ev [] bus = (None, bus)"
| "remove_subs ev (sub # rest) bus =
     (case map_of (subscriptions bus) ev of
        None \<Rightarrow> (Some KeyError, bus)
      | Some cur \<Rightarrow>
          if sub \<in> set cur
          then remove_subs ev rest
                 (bus\<lparr>subscriptions := AList.update ev (remove1 sub cur) (subscriptions bus)\<rparr>)
          else (Some ValueError, bus))"

text \<open>
  \<open>emit\<close>. A handler that subscribes to the event being emitted lengthens the loop, which
  then need not end: \<open>fuel\<close> bounds the number of iterations, and the result is \<open>None\<close>
  when the loop has not ended within it. Otherwise the result is what \<open>emit\<close> raised, if
  anything, the bus and the world after the call, and the handler calls made, in order.
\<close>

definition emit ::
  "nat \<Rightarrow> 'w handlers \<Rightarrow> event_bus \<Rightarrow> string \<Rightarrow> pydict option \<Rightarrow> 'w
     \<Rightarrow> (py_error option \<times> event_bus \<times> 'w \<times> (nat \<times> pydict) list) option" where
  "emit fuel H bus ev payload w =
     (case map_of (subscriptions bus) ev of
        None \<Rightarrow> Some (None, bus, w, [])
      | Some subs \<Rightarrow>
          (let st = (emit_step H ev (payload_or_empty payload) ^^ fuel) (emit_start bus subs w)
           in if propagated st then Some (Some BaseException, bus_now st, world st, calls st)
              else if remaining st \<noteq> [] then None
              else (case remove_subs ev (to_remove st) (bus_now st) of
                      (raised, bus') \<Rightarrow> Some (raised, bus', world st, calls st))))"

text \<open>Three emits in a row, stopping at a raise; the calls of all three, in order.\<close>

definition emit3 ::
  "nat \<Rightarrow> 'w handlers \<Rightarrow> event_bus \<Rightarrow> string \<Rightarrow> pydict option \<Rightarrow> 'w
     \<Rightarrow> (py_error option \<times> event_bus \<times> 'w \<times> (nat \<times> pydict) list) option" where
  "emit3 fuel H bus ev payload w =
     (case emit fuel H bus ev payload w of
        None \<Rightarrow> None
      | Some (r1, b1, w1, c1) \<Rightarrow>
          if r1 \<noteq> None then Some (r1, b1, w1, c1)
          else (case emit fuel H b1 ev payload w1 of
                  None \<Rightarrow> None
                | Some (r2, b2, w2, c2) \<Rightarrow>
                    if r2 \<noteq> None then Some (r2, b2, w2, c1 @ c2)
                    else (case emit fuel H b2 ev payload w2 of
                            None \<Rightarrow> None
                          | Some (r3, b3, w3, c3) \<Rightarrow> Some (r3, b3, w3, c1 @ c2 @ c3))))"

text \<open>
  Handlers for the examples; none of them touches the bus. Handler \<open>0\<close> of the first
  raises an instance of \<open>Exception\<close>, handler \<open>0\<close> of the second raises outside it, and
  every other handler returns.
\<close>

definition raising_handlers :: "unit handlers" where
  "raising_handlers h arg w = (if h = 0 then (Raised, w, []) else (Returned, w, []))"


section \<open>Connection registry (core/websocket.py)\<close>

text \<open>
  A connection is named by a number (a \<open>WebSocket\<close> is compared by identity). The
  lock is not modelled: the registry is read and written in one step each. Messages
  are values, for which \<open>json.dumps\<close> does not fail; the encoder is a parameter, and so
  is which connections fail on \<open>send_text\<close>.
\<close>

record connection_manager =
  active_connections :: "(string \<times> (string \<times> nat list) list) list"
  global_connections :: "nat list"

definition new_connection_manager :: connection_manager where
  "new_connection_manager = \<lparr> active_connections = [], global_connections = [] \<rparr>"

definition scoped_connections :: "connection_manager \<Rightarrow> string \<Rightarrow> string \<Rightarrow> nat list" where
  "scoped_connections mgr entity_type entity_id =
     (case map_of (active_connections mgr) entity_type of
        None \<Rightarrow> []
      | Some by_id \<Rightarrow> (case map_of by_id entity_id of None \<Rightarrow> [] | Some cs \<Rightarrow> cs))"

text \<open>\<open>connect\<close>: scoped when both the type and the id are given and non-empty.\<close>

definition connect ::
  "connection_manager \<Rightarrow> nat \<Rightarrow> string option \<Rightarrow> string option \<Rightarrow> connection_manager" where
  "connect mgr websocket entity_type entity_id =
     (case (entity_type, entity_id) of
        (Some t, Some i) \<Rightarrow>
          if t \<noteq> [] \<and> i \<noteq> [] then
            (let by_id = (case map_of (active_connections mgr) t of None \<Rightarrow> [] | Some m \<Rightarrow> m)
             in mgr\<lparr>active_connections :=
                      AList.update t
                        (AList.update i (scoped_connections mgr t i @ [websocket]) by_id)
                        (active_connections mgr)\<rparr>)
          else mgr\<lparr>global_connections := global_connections mgr @ [websocket]\<rparr>
      | _ \<Rightarrow> mgr\<lparr>global_connections := global_connections mgr @ [websocket]\<rparr>)"

text \<open>Removal of one failed connection from the global list and from every scoped list.\<close>

definition evict :: "nat \<Rightarrow> connection_manager \<Rightarrow> connection_manager" where
  "evict ws mgr =
     mgr\<lparr>global_connections := remove1 ws (global_connections mgr),
         active_connections :=
           map (\<lambda>(t, by_id). (t, map (\<lambda>(i, cs). (i, remove1 ws cs)) by_id))
             (active_connections mgr)\<rparr>"

text \<open>
  \<open>_send_to_connections\<close>: the sends attempted, in order, each with the encoded
  message, and the registry after the failed connections are removed.
\<close>

definition send_to_connections ::
  "(nat \<Rightarrow> bool) \<Rightarrow> (val \<Rightarrow> string) \<Rightarrow> connection_manager \<Rightarrow> nat list \<Rightarrow> val
     \<Rightarrow> connection_manager \<times> (nat \<times> string) list" where
  "send_to_connections send_ok json_dumps mgr connections message =
     (let json_message = json_dumps message;
          disconnected = filter (\<lambda>c. \<not> send_ok c) connections
      in (fold evict disconnected mgr, map (\<lambda>c. (c, json_message)) connections))"

definition broadcast_to_entity ::
  "(nat \<Rightarrow> bool) \<Rightarrow> (val \<Rightarrow> string) \<Rightarrow> connection_manager \<Rightarrow> string \<Rightarrow> string \<Rightarrow> val
     \<Rightarrow> connection_manager \<times> (nat \<times> string) list" where
  "broadcast_to_entity send_ok json_dumps mgr entity_type entity_id message =
     (let connections_to_notify =
            scoped_connections mgr entity_type entity_id @ global_connections mgr
      in send_to_connections send_ok json_dumps mgr connections_to_notify message)"

definition all_send_ok :: "nat \<Rightarrow> bool" where
  "all_send_ok c = True"

definition test_dumps :: "val \<Rightarrow> string" where
  "test_dumps v = ''<json>''"

text \<open>\<open>disconnect\<close>, with the pruning of entries that became empty.\<close>

definition disconnect ::
  "connection_manager \<Rightarrow> nat \<Rightarrow> string option \<Rightarrow> string option \<Rightarrow> connection_manager" where
  "disconnect mgr websocket entity_type entity_id =
     (case (entity_type, entity_id) of
        (Some t, Some i) \<Rightarrow>
          if t \<noteq> [] \<and> i \<noteq> [] then
            (case map_of (active_connections mgr) t of
               None \<Rightarrow> mgr
             | Some by_id \<Rightarrow>
                 (case map_of by_id i of
                    None \<Rightarrow> mgr
                  | Some cs \<Rightarrow>
                      (let cs' = remove1 websocket cs;
                           by_id' = (if cs' = [] then AList.delete i by_id
                                     else AList.update i cs' by_id)
                       in mgr\<lparr>active_connections :=
                                (if by_id' = [] then AList.delete t (active_connections mgr)
                                 else AList.update t by_id' (active_connections mgr))\<rparr>)))
          else mgr\<lparr>global_connections := remove1 websocket (global_connections mgr)\<rparr>
      | _ \<Rightarrow> mgr\<lparr>global_connections := remove1 websocket (global_connections mgr)\<rparr>)"

text \<open>
  The ways the registry changes: a connection connects, disconnects, or is removed
  after a failed send. A registry state is what a sequence of these leaves of the
  empty registry.
\<close>

datatype registry_op =
    Connect nat "string option" "string option"
  | Disconnect nat "string option" "string option"
  | Evict nat

fun apply_op :: "registry_op \<Rightarrow> connection_manager \<Rightarrow> connection_manager" where
  "apply_op (Connect c t i) mgr = connect mgr c t i"
| "apply_op (Disconnect c t i) mgr = disconnect mgr c t i"
| "apply_op (Evict c) mgr = evict c mgr"

definition registry_after :: "registry_op list \<Rightarrow> connection_manager" where
  "registry_after ops = fold apply_op ops new_connection_manager"

text \<open>
  The registry as the specification describes it: each connection is registered
  globally, or scoped to one pair of entity type and id when both are given (and not
  empty); one list of connections per pair, in order of registration, and one global
  list.
\<close>

record spec_registry =
  spec_scoped :: "string \<times> string \<Rightarrow> nat list"
  spec_global :: "nat list"

definition spec_empty :: spec_registry where
  "spec_empty = \<lparr> spec_scoped = (\<lambda>k. []), spec_global = [] \<rparr>"

fun scope_of :: "string option \<Rightarrow> string option \<Rightarrow> (string \<times> string) option" where
  "scope_of (Some t) (Some i) = (if t \<noteq> [] \<and> i \<noteq> [] then Some (t, i) else None)"
| "scope_of t i = None"

fun spec_op :: "registry_op \<Rightarrow> spec_registry \<Rightarrow> spec_registry" where
  "spec_op (Connect c t i) r =
     (case scope_of t i of
        Some k \<Rightarrow> r\<lparr>spec_scoped := (spec_scoped r)(k := spec_scoped r k @ [c])\<rparr>
      | None \<Rightarrow> r\<lparr>spec_global := spec_global r @ [c]\<rparr>)"
| "spec_op (Disconnect c t i) r =
     (case scope_of t i of
        Some k \<Rightarrow> r\<lparr>spec_scoped := (spec_scoped r)(k := remove1 c (spec_scoped r k))\<rparr>
      | None \<Rightarrow> r\<lparr>spec_global := remove1 c (spec_global r)\<rparr>)"
| "spec_op (Evict c) r =
     r\<lparr>spec_scoped := (\<lambda>k. remove1 c (spec_scoped r k)),
       spec_global := remove1 c (spec_global r)\<rparr>"

definition spec_after :: "registry_op list \<Rightarrow> spec_registry" where
  "spec_after ops = fold spec_op ops spec_empty"

section \<open>Conditions used in the statements\<close>

text \<open>The parts of a \<open>set\<close> target that is a binding string, as \<open>_execute_set\<close> splits it.\<close>

definition binding_parts :: "val \<Rightarrow> string list option" where
  "binding_parts target =
     (case target of
        VStr s \<Rightarrow> if starts_with ''@'' s then Some (split_on CHR ''.'' (drop 1 s)) else None
      | _ \<Rightarrow> None)"

text \<open>
  No assignment is attempted: the target is not a binding string, or its root is not
  in the context, or it has a single segment.
\<close>

definition no_assignment :: "val \<Rightarrow> pydict \<Rightarrow> bool" where
  "no_assignment target context =
     (case binding_parts target of
        None \<Rightarrow> True
      | Some parts \<Rightarrow> dict_lookup context (VStr (hd parts)) = None \<or> length parts \<le> 1)"

text \<open>An assignment is attempted, and the walk ends at a dict.\<close>

definition assigns_into_dict :: "attrs \<Rightarrow> val \<Rightarrow> pydict \<Rightarrow> bool" where
  "assigns_into_dict ga target context =
     (case binding_parts target of
        None \<Rightarrow> False
      | Some parts \<Rightarrow>
          (case dict_lookup context (VStr (hd parts)) of
             None \<Rightarrow> False
           | Some obj0 \<Rightarrow>
               length parts > 1 \<and>
               (case navigate ga obj0 (butlast (drop 1 parts)) of VDict d \<Rightarrow> True | _ \<Rightarrow> False)))"

text \<open>The tags \<open>execute\<close> dispatches on, by name or by prefix.\<close>

definition recognized_tag :: "string \<Rightarrow> bool" where
  "recognized_tag t =
     (t \<in> set [''fetch'', ''persist'', ''call_service'', ''set'', ''render_ui'', ''render-ui'',
               ''navigate'', ''notify'', ''emit'']
      \<or> starts_with ''nn/'' t \<or> starts_with ''train/'' t \<or> starts_with ''tensor/'' t)"

text \<open>
  What the handlers of a list of subscriptions do when run in order, each on the world
  the one before left: the world after them, and the calls.
\<close>

definition worlds_after :: "'w handlers \<Rightarrow> pydict \<Rightarrow> subscription list \<Rightarrow> 'w \<Rightarrow> 'w" where
  "worlds_after H arg subs w = foldl (\<lambda>v s. fst (snd (H (handler s) arg v))) w subs"

definition calls_of :: "pydict \<Rightarrow> subscription list \<Rightarrow> (nat \<times> pydict) list" where
  "calls_of arg subs = map (\<lambda>s. (handler s, arg)) subs"

text \<open>Every raise of a handler is an instance of \<open>Exception\<close>.\<close>

definition raises_only_exceptions :: "'w handlers \<Rightarrow> bool" where
  "raises_only_exceptions H = (\<forall>h a v. fst (H h a v) \<noteq> RaisedBase)"

text \<open>No handler subscribes to the event; no handler calls the bus at all.\<close>

definition never_subscribes_to :: "'w handlers \<Rightarrow> string \<Rightarrow> bool" where
  "never_subscribes_to H ev =
     (\<forall>h a v e h' flag. Subscribe e h' flag \<in> set (snd (snd (H h a v))) \<longrightarrow> e \<noteq> ev)"


text \<open>
  The registry agrees with the specification's: the same connections under each pair,
  and the same global connections, in the same order.
\<close>

definition refines :: "connection_manager \<Rightarrow> spec_registry \<Rightarrow> bool" where
  "refines mgr r =
     ((\<forall>t i. scoped_connections mgr t i = spec_scoped r (t, i))
      \<and> global_connections mgr = spec_global r)"

section \<open>Example states\<close>

definition task_store :: store where
  "task_store =
     [(VStr ''Task'',
       [(VStr ''t1'', [(VStr ''id'', VStr ''t1''), (VStr ''status'', VStr ''pending'')]),
        (VStr ''t2'', [(VStr ''id'', VStr ''t2''), (VStr ''status'', VStr ''done'')])])]"

definition scoped_ops :: "registry_op list" where
  "scoped_ops =
     [Connect 1 (Some ''T'') (Some ''1''), Connect 2 (Some ''T'') (Some ''2''), Connect 3 None None]"

text \<open>A handler subscribed with \<open>once\<close> that calls its own unsubscribe token and returns.\<close>

definition once_sub :: subscription where
  "once_sub = \<lparr> event = ''E'', handler = 0, once = True \<rparr>"

definition self_unsubscribing :: "unit handlers" where
  "self_unsubscribing h arg w = (Returned, w, [Unsubscribe once_sub])"


section \<open>Dicts and values\<close>

lemma key_eq_str: "key_eq k (VStr s) = (k = VStr s)"
  by (cases k) (auto simp: key_eq_def)

lemma key_eq_str2: "key_eq (VStr s) k = (k = VStr s)"
  by (cases k) (auto simp: key_eq_def)

lemma dict_lookup_put_same: "dict_lookup (dict_put d k v) k = Some v"
  by (induction d) (auto simp: key_eq_def)

lemma dict_lookup_put_other:
  "\<not> key_eq k k' \<Longrightarrow> dict_lookup (dict_put d k v) k' = dict_lookup d k'"
  by (induction d) (auto simp: key_eq_def)

lemma dict_lookup_del_same: "dict_lookup (dict_del d k) k = None"
  by (induction d) (auto simp: key_eq_def)

section \<open>Properties of the binding resolver\<close>

lemma split_on_not_Nil: "split_on c s \<noteq> []"
  by (induction s) (auto split: list.splits)

lemma spec_walk_None: "spec_walk ga VNone segs = VNone"
  unfolding spec_walk_def by (induction segs) (simp_all add: spec_step_def)

lemma resolve_loop_spec_walk: "resolve_loop ga r segs = spec_walk ga r segs"
proof (induction segs arbitrary: r)
  case Nil
  show ?case by (simp add: spec_walk_def)
next
  case (Cons seg segs)
  show ?case
  proof (cases r)
    case VNone
    then show ?thesis using spec_walk_None [of ga "seg # segs"] by simp
  next
    case (VDict d)
    then show ?thesis
      using Cons.IH [of "dict_get d (VStr seg)"]
      by (simp add: spec_walk_def spec_step_def dict_get_def)
  qed (use Cons.IH in \<open>simp_all add: spec_walk_def spec_step_def getattr_default_def\<close>)
qed

lemma resolve_binding_total: "\<exists>v. resolve_binding ga x context = Inr v"
  by (auto simp: resolve_binding_def bind_err_def py_index_def split_on_not_Nil
      split: val.splits option.splits)

lemma starts_with_at: "starts_with ''@'' (CHR ''@'' # s)"
  by (simp add: starts_with_def)

text \<open>
  Claim C2. For a binding string \<open>@root.seg1...segN\<close> (the text after the sigil splits
  into \<open>root\<close> and the segments) and any context, \<open>resolve_binding\<close> returns a value
  and does not raise; the value is null when the root is absent from the context, and
  otherwise the result of walking the segments from the root's value, by key lookup on
  a dict and attribute lookup on anything else, both defaulting to null. Once a prefix
  of the segments has led to null, the result is null whatever segments follow.
\<close>

theorem resolve_binding_walk:
  assumes "split_on CHR ''.'' s = root # segs"
  shows "resolve_binding ga (VStr (CHR ''@'' # s)) context = Inr (spec_resolve ga root segs context)
       \<and> (dict_lookup context (VStr root) = None \<longrightarrow> spec_resolve ga root segs context = VNone)
       \<and> (\<forall>r pre post. dict_lookup context (VStr root) = Some r \<and> segs = pre @ post
             \<and> spec_walk ga r pre = VNone \<longrightarrow> spec_resolve ga root segs context = VNone)"
proof (intro conjI allI impI)
  show "resolve_binding ga (VStr (CHR ''@'' # s)) context = Inr (spec_resolve ga root segs context)"
    using assms
    by (simp add: resolve_binding_def starts_with_at bind_err_def py_index_def spec_resolve_def
        resolve_loop_spec_walk split: option.splits)
next
  assume "dict_lookup context (VStr root) = None"
  then show "spec_resolve ga root segs context = VNone"
    by (simp add: spec_resolve_def)
next
  fix r pre post
  assume h: "dict_lookup context (VStr root) = Some r \<and> segs = pre @ post
    \<and> spec_walk ga r pre = VNone"
  then have "spec_walk ga r segs = spec_walk ga VNone post"
    by (simp add: spec_walk_def)
  with h show "spec_resolve ga root segs context = VNone"
    by (simp add: spec_resolve_def spec_walk_None)
qed

theorem resolve_binding_walk_witness:
  "split_on CHR ''.'' ''root.missing.path'' = [''root'', ''missing'', ''path'']
   \<and> resolve_binding no_attrs (VStr ''@root.missing.path'') [(VStr ''root'', VDict [])] = Inr VNone"
  using resolve_binding_walk [of "''root.missing.path''" "''root''" "[''missing'', ''path'']"
      no_attrs "[(VStr ''root'', VDict [])]"]
  by (simp add: spec_resolve_def spec_walk_def spec_step_def key_eq_def)

section \<open>Properties of the in-memory repository\<close>

text \<open>
  Claim C4 (upsert law). For every entity type, every id with no entity stored under
  it, and every data map, \<open>update\<close> does not raise: it returns an entity whose \<open>id\<close>
  field is the requested id and whose other fields are those of the data, and that
  entity is stored under the id afterwards.
\<close>

theorem mem_update_upsert:
  assumes "dict_lookup (entities_of s (VStr t)) (VStr i) = None"
  shows "\<exists>e s'. mem_update s (VStr t) (VStr i) (VDict d) = Inr (VDict e, s')
       \<and> dict_lookup e (VStr ''id'') = Some (VStr i)
       \<and> (\<forall>k. k \<noteq> VStr ''id'' \<longrightarrow> dict_lookup e k = dict_lookup d k)
       \<and> mem_get s' (VStr t) (VStr i) = Inr (VDict e)"
proof -
  let ?e = "dict_put d (VStr ''id'') (VStr i)"
  let ?s' = "dict_put s (VStr t) (dict_put (entities_of s (VStr t)) (VStr i) ?e)"
  have 1: "mem_update s (VStr t) (VStr i) (VDict d) = Inr (VDict ?e, ?s')"
    using assms by (simp add: mem_update_def Let_def)
  have 2: "dict_lookup ?e (VStr ''id'') = Some (VStr i)"
    by (rule dict_lookup_put_same)
  have 3: "\<forall>k. k \<noteq> VStr ''id'' \<longrightarrow> dict_lookup ?e k = dict_lookup d k"
    by (simp add: dict_lookup_put_other key_eq_str2)
  have 4: "mem_get ?s' (VStr t) (VStr i) = Inr (VDict ?e)"
    by (simp add: mem_get_def entities_of_def dict_lookup_put_same)
  from 1 2 3 4 show ?thesis by blast
qed

theorem mem_update_upsert_witness:
  "dict_lookup (entities_of [] (VStr ''Task'')) (VStr ''non-existent'') = None
   \<and> mem_update [] (VStr ''Task'') (VStr ''non-existent'') (VDict [(VStr ''status'', VStr ''done'')])
       = Inr (VDict [(VStr ''status'', VStr ''done''), (VStr ''id'', VStr ''non-existent'')],
              [(VStr ''Task'', [(VStr ''non-existent'',
                 [(VStr ''status'', VStr ''done''), (VStr ''id'', VStr ''non-existent'')])])])"
  using mem_update_upsert [of "[]" "''Task''" "''non-existent''" "[(VStr ''status'', VStr ''done'')]"]
  by (simp add: mem_update_def entities_of_def key_eq_def Let_def)

text \<open>
  Claim C5 (delete law). For every entity type and id: when an entity is stored under
  the id, \<open>delete\<close> returns true, the id is absent afterwards, and a second \<open>delete\<close>
  returns false and leaves the store as it is; when no entity is stored under the id
  (it never was, or it was deleted and not created again), \<open>delete\<close> returns false,
  changes nothing and does not raise.
\<close>

theorem mem_delete_law:
  "(dict_lookup (entities_of s (VStr t)) (VStr i) \<noteq> None \<longrightarrow>
      (\<exists>s'. mem_delete s (VStr t) (VStr i) = Inr (True, s')
          \<and> dict_lookup (entities_of s' (VStr t)) (VStr i) = None
          \<and> mem_delete s' (VStr t) (VStr i) = Inr (False, s')))
   \<and> (dict_lookup (entities_of s (VStr t)) (VStr i) = None \<longrightarrow>
        mem_delete s (VStr t) (VStr i) = Inr (False, s))"
proof (intro conjI impI)
  assume present: "dict_lookup (entities_of s (VStr t)) (VStr i) \<noteq> None"
  then obtain ents where ents: "dict_lookup s (VStr t) = Some ents"
    by (auto simp: entities_of_def split: option.splits)
  let ?s' = "dict_put s (VStr t) (dict_del ents (VStr i))"
  have 1: "mem_delete s (VStr t) (VStr i) = Inr (True, ?s')"
    using present ents by (simp add: mem_delete_def entities_of_def)
  have 2: "dict_lookup (entities_of ?s' (VStr t)) (VStr i) = None"
    by (simp add: entities_of_def dict_lookup_put_same dict_lookup_del_same)
  have 3: "mem_delete ?s' (VStr t) (VStr i) = Inr (False, ?s')"
    by (simp add: mem_delete_def dict_lookup_put_same dict_lookup_del_same)
  from 1 2 3 show "\<exists>s'. mem_delete s (VStr t) (VStr i) = Inr (True, s')
          \<and> dict_lookup (entities_of s' (VStr t)) (VStr i) = None
          \<and> mem_delete s' (VStr t) (VStr i) = Inr (False, s')"
    by blast
next
  assume "dict_lookup (entities_of s (VStr t)) (VStr i) = None"
  then show "mem_delete s (VStr t) (VStr i) = Inr (False, s)"
    by (auto simp: mem_delete_def entities_of_def split: option.splits)
qed

theorem mem_delete_law_witness:
  "dict_lookup (entities_of task_store (VStr ''Task'')) (VStr ''t1'') \<noteq> None
   \<and> dict_lookup (entities_of task_store (VStr ''Task'')) (VStr ''t9'') = None
   \<and> (\<exists>s'. mem_delete task_store (VStr ''Task'') (VStr ''t1'') = Inr (True, s')
          \<and> mem_delete s' (VStr ''Task'') (VStr ''t1'') = Inr (False, s'))
   \<and> mem_delete task_store (VStr ''Task'') (VStr ''t9'') = Inr (False, task_store)"
  using mem_delete_law [of task_store "''Task''" "''t1''"]
    mem_delete_law [of task_store "''Task''" "''t9''"]
  by (simp add: task_store_def entities_of_def key_eq_def mem_delete_def)

text \<open>
  Claim C3, at the input where the code leaves it. With entities stored and a non-empty
  context, the filter \<open>["="]\<close> makes \<open>list\<close> raise \<open>IndexError\<close>: \<open>_apply_filter\<close>
  reads \<open>filter_expr[1]\<close> without a length check.
\<close>

theorem mem_list_short_filter_raises:
  "mem_list task_store (VStr ''Task'') (VList [VStr ''='']) (Some [(VStr ''dummy'', VBool True)])
   = Inl IndexError"
  by (simp add: mem_list_def apply_filter_def bind_err_def py_index_def Let_def)

text \<open>
  The other malformed filters do fall back to the unfiltered list: a value that is not
  a list, a list whose operator is not \<open>"="\<close>, and a triple whose field path is not a
  string starting with \<open>@entity.\<close>.
\<close>

lemma apply_filter_permissive:
  "(\<forall>fe. filter_expr \<noteq> VList fe)
     \<or> (\<exists>opr rest. filter_expr = VList (opr # rest) \<and> opr \<noteq> VStr ''='')
     \<or> (\<exists>p v rest. filter_expr = VList (VStr ''='' # p # v # rest)
          \<and> (\<forall>fp. p = VStr fp \<longrightarrow> \<not> starts_with ''@entity.'' fp))
   \<Longrightarrow> apply_filter entities filter_expr context = Inr entities"
  by (auto simp: apply_filter_def bind_err_def py_index_def split: val.splits)

section \<open>Properties of the event bus\<close>

lemma act_on_fields:
  "world (act_on ev a st) = world st \<and> calls (act_on ev a st) = calls st
   \<and> to_remove (act_on ev a st) = to_remove st \<and> propagated (act_on ev a st) = propagated st"
  by (cases a) simp_all

lemma fold_act_on_fields:
  "world (fold (act_on ev) acts st) = world st \<and> calls (fold (act_on ev) acts st) = calls st
   \<and> to_remove (fold (act_on ev) acts st) = to_remove st
   \<and> propagated (fold (act_on ev) acts st) = propagated st"
  by (induction acts arbitrary: st) (simp_all add: act_on_fields)

lemma act_on_remaining:
  "\<exists>xs. remaining (act_on ev a st) = remaining st @ xs
     \<and> ((\<forall>e h flag. a = Subscribe e h flag \<longrightarrow> e \<noteq> ev) \<longrightarrow> xs = [])"
  by (cases a) auto

lemma fold_act_on_remaining:
  "\<exists>xs. remaining (fold (act_on ev) acts st) = remaining st @ xs
     \<and> ((\<forall>e h flag. Subscribe e h flag \<in> set acts \<longrightarrow> e \<noteq> ev) \<longrightarrow> xs = [])"
proof (induction acts arbitrary: st)
  case Nil
  show ?case by simp
next
  case (Cons a acts)
  obtain xs where xs: "remaining (act_on ev a st) = remaining st @ xs"
    and xs0: "(\<forall>e h flag. a = Subscribe e h flag \<longrightarrow> e \<noteq> ev) \<longrightarrow> xs = []"
    using act_on_remaining [of ev a st] by blast
  obtain ys where ys: "remaining (fold (act_on ev) acts (act_on ev a st))
        = remaining (act_on ev a st) @ ys"
    and ys0: "(\<forall>e h flag. Subscribe e h flag \<in> set acts \<longrightarrow> e \<noteq> ev) \<longrightarrow> ys = []"
    using Cons.IH [of "act_on ev a st"] by blast
  have "remaining (fold (act_on ev) (a # acts) st) = remaining st @ (xs @ ys)"
    using xs ys by simp
  moreover have "(\<forall>e h flag. Subscribe e h flag \<in> set (a # acts) \<longrightarrow> e \<noteq> ev) \<longrightarrow> xs @ ys = []"
    using xs0 ys0 by auto
  ultimately show ?case by blast
qed

text \<open>One iteration on a state whose loop is still running.\<close>

lemma emit_step_running:
  assumes "remaining st = sub # rest" and "\<not> propagated st"
    and "fst (H (handler sub) arg (world st)) \<noteq> RaisedBase"
  shows "calls (emit_step H ev arg st) = calls st @ [(handler sub, arg)]
       \<and> world (emit_step H ev arg st) = fst (snd (H (handler sub) arg (world st)))
       \<and> \<not> propagated (emit_step H ev arg st)
       \<and> (\<exists>xs. remaining (emit_step H ev arg st) = rest @ xs
             \<and> ((\<forall>e h flag. Subscribe e h flag \<in> set (snd (snd (H (handler sub) arg (world st))))
                   \<longrightarrow> e \<noteq> ev) \<longrightarrow> xs = []))"
proof -
  obtain out w1 acts where h: "H (handler sub) arg (world st) = (out, w1, acts)"
    by (cases "H (handler sub) arg (world st)")
  let ?init = "st\<lparr>remaining := rest, world := w1, calls := calls st @ [(handler sub, arg)]\<rparr>"
  let ?nxt = "fold (act_on ev) acts ?init"
  have f: "world ?nxt = w1" "calls ?nxt = calls st @ [(handler sub, arg)]"
    "propagated ?nxt = propagated st"
    using fold_act_on_fields [of ev acts ?init] by simp_all
  obtain xs where xs: "remaining ?nxt = rest @ xs"
    and xs0: "(\<forall>e h flag. Subscribe e h flag \<in> set acts \<longrightarrow> e \<noteq> ev) \<longrightarrow> xs = []"
    using fold_act_on_remaining [of ev acts ?init] by auto
  have step: "emit_step H ev arg st =
      (case out of Returned \<Rightarrow> ?nxt\<lparr>to_remove := to_remove ?nxt @ (if once sub then [sub] else [])\<rparr>
       | Raised \<Rightarrow> ?nxt | RaisedBase \<Rightarrow> ?nxt\<lparr>propagated := True\<rparr>)"
    using assms(1,2) h by (simp add: emit_step_def Let_def)
  from assms(3) h have "out \<noteq> RaisedBase" by simp
  then show ?thesis
    using step f xs xs0 h assms(2) by (cases out) auto
qed

text \<open>
  As many iterations as a prefix of the list is long call that prefix, in order; what
  handlers subscribe meanwhile is appended behind the rest.
\<close>

lemma emit_steps_prefix:
  assumes "raises_only_exceptions H"
  shows "remaining st = pre @ post \<Longrightarrow> \<not> propagated st \<Longrightarrow>
     calls ((emit_step H ev arg ^^ length pre) st) = calls st @ calls_of arg pre
     \<and> world ((emit_step H ev arg ^^ length pre) st) = worlds_after H arg pre (world st)
     \<and> \<not> propagated ((emit_step H ev arg ^^ length pre) st)
     \<and> (\<exists>xs. remaining ((emit_step H ev arg ^^ length pre) st) = post @ xs
           \<and> (never_subscribes_to H ev \<longrightarrow> xs = []))"
proof (induction pre arbitrary: st post)
  case Nil
  then show ?case by (simp add: calls_of_def worlds_after_def)
next
  case (Cons s pre)
  let ?nxt = "emit_step H ev arg st"
  have nb: "fst (H (handler s) arg (world st)) \<noteq> RaisedBase"
    using assms by (simp add: raises_only_exceptions_def)
  from Cons.prems have r: "remaining st = s # (pre @ post)" by simp
  have one: "calls ?nxt = calls st @ [(handler s, arg)]
       \<and> world ?nxt = fst (snd (H (handler s) arg (world st)))
       \<and> \<not> propagated ?nxt
       \<and> (\<exists>xs. remaining ?nxt = (pre @ post) @ xs
             \<and> ((\<forall>e h flag. Subscribe e h flag \<in> set (snd (snd (H (handler s) arg (world st))))
                   \<longrightarrow> e \<noteq> ev) \<longrightarrow> xs = []))"
    using r Cons.prems(2) nb by (rule emit_step_running)
  then obtain xs where xs': "remaining ?nxt = (pre @ post) @ xs"
    and xs0': "(\<forall>e h flag. Subscribe e h flag \<in> set (snd (snd (H (handler s) arg (world st))))
                   \<longrightarrow> e \<noteq> ev) \<longrightarrow> xs = []"
    by blast
  have xs: "remaining ?nxt = pre @ (post @ xs)" using xs' by simp
  have xs0: "never_subscribes_to H ev \<longrightarrow> xs = []"
    using xs0' unfolding never_subscribes_to_def by blast
  from one have np: "\<not> propagated ?nxt" by simp
  note ih = Cons.IH [OF xs np]
  then obtain ys where ys: "remaining ((emit_step H ev arg ^^ length pre) ?nxt) = (post @ xs) @ ys"
    and ys0: "never_subscribes_to H ev \<longrightarrow> ys = []"
    by blast
  have pow: "(emit_step H ev arg ^^ length (s # pre)) st = (emit_step H ev arg ^^ length pre) ?nxt"
    by (simp add: funpow_swap1)
  have "remaining ((emit_step H ev arg ^^ length (s # pre)) st) = post @ (xs @ ys)"
    using ys pow by simp
  moreover have "never_subscribes_to H ev \<longrightarrow> xs @ ys = []"
    using xs0 ys0 by simp
  ultimately have rem: "\<exists>zs. remaining ((emit_step H ev arg ^^ length (s # pre)) st) = post @ zs
      \<and> (never_subscribes_to H ev \<longrightarrow> zs = [])"
    by blast
  from ih one have "calls ((emit_step H ev arg ^^ length pre) ?nxt) = calls st @ calls_of arg (s # pre)"
    by (simp add: calls_of_def)
  moreover from ih one have "world ((emit_step H ev arg ^^ length pre) ?nxt)
      = worlds_after H arg (s # pre) (world st)"
    by (simp add: worlds_after_def)
  moreover from ih have "\<not> propagated ((emit_step H ev arg ^^ length pre) ?nxt)" by simp
  ultimately show ?case using rem pow by simp
qed

lemma emit_step_done: "remaining st = [] \<Longrightarrow> emit_step H ev arg st = st"
  by (simp add: emit_step_def)

lemma emit_steps_done: "remaining st = [] \<Longrightarrow> (emit_step H ev arg ^^ k) st = st"
  by (induction k) (simp_all add: emit_step_done)



lemma emit_step_quiet:
  assumes "remaining st = sub # rest" and "\<not> propagated st"
    and "fst (H (handler sub) arg (world st)) \<noteq> RaisedBase"
    and "snd (snd (H (handler sub) arg (world st))) = []"
  shows "bus_now (emit_step H ev arg st) = bus_now st
       \<and> remaining (emit_step H ev arg st) = rest
       \<and> \<not> propagated (emit_step H ev arg st)
       \<and> to_remove (emit_step H ev arg st) =
           to_remove st @ (if fst (H (handler sub) arg (world st)) = Returned \<and> once sub
                           then [sub] else [])"
proof -
  obtain out w1 acts where h: "H (handler sub) arg (world st) = (out, w1, acts)"
    by (cases "H (handler sub) arg (world st)")
  with assms(3,4) have "out \<noteq> RaisedBase" and "acts = []" by simp_all
  then show ?thesis
    using assms(1,2) h by (cases out) (simp_all add: emit_step_def)
qed






text \<open>
  Claim C6, at the input where the code leaves it. A handler that raises, subscribed
  with \<open>once=True\<close>, is still subscribed after \<open>emit\<close> returns, and is called by each of
  three emits in a row: the subscription is noted for removal inside the \<open>try\<close>, after
  the call, so the raise skips it.
\<close>

theorem once_raising_handler_not_removed:
  "emit3 1 raising_handlers (subscribe new_event_bus ''ONCE_EVENT'' 0 True) ''ONCE_EVENT'' None ()
     = Some (None, subscribe new_event_bus ''ONCE_EVENT'' 0 True, (), [(0, []), (0, []), (0, [])])"
  by (simp add: emit3_def emit_def emit_step_def emit_start_def subscribe_def new_event_bus_def
      subscriptions_for_def payload_or_empty_def raising_handlers_def Let_def)

text \<open>
  A handler that reaches the bus can make \<open>emit\<close> itself raise: a \<open>once\<close> handler that
  calls its own unsubscribe token returns, and \<open>list.remove\<close> then finds nothing to
  remove.
\<close>

lemma emit_self_unsubscribing_raises:
  "emit 1 self_unsubscribing (subscribe new_event_bus ''E'' 0 True) ''E'' None ()
     = Some (Some ValueError, \<lparr> subscriptions = [(''E'', [])] \<rparr>, (), [(0, [])])"
  by (simp add: emit_def emit_step_def emit_start_def subscribe_def unsubscribe_def
      new_event_bus_def subscriptions_for_def payload_or_empty_def self_unsubscribing_def
      once_sub_def Let_def)

text \<open>
  When every handler returns and leaves the bus alone, the subscriptions marked \<open>once\<close>
  are gone after \<open>emit\<close>, and the others stay in order.
\<close>

lemma emit_finished:
  assumes "raises_only_exceptions H" and "map_of (subscriptions bus) ev = Some subs"
    and "never_subscribes_to H ev" and "length subs \<le> fuel"
  shows "emit fuel H bus ev payload w =
      (case remove_subs ev
              (to_remove ((emit_step H ev (payload_or_empty payload) ^^ length subs)
                            (emit_start bus subs w)))
              (bus_now ((emit_step H ev (payload_or_empty payload) ^^ length subs)
                          (emit_start bus subs w))) of
         (raised, bus') \<Rightarrow>
           Some (raised, bus', worlds_after H (payload_or_empty payload) subs w,
                 calls_of (payload_or_empty payload) subs))"
proof -
  let ?arg = "payload_or_empty payload"
  let ?init = "emit_start bus subs w"
  let ?fin = "(emit_step H ev ?arg ^^ length subs) ?init"
  have start: "remaining ?init = subs @ []" "\<not> propagated ?init" "calls ?init = []" "world ?init = w"
    by (simp_all add: emit_start_def)
  from emit_steps_prefix [OF assms(1) start(1) start(2), of ev ?arg] assms(3)
  have c: "calls ?fin = calls_of ?arg subs" and wd: "world ?fin = worlds_after H ?arg subs w"
    and np: "\<not> propagated ?fin" and r: "remaining ?fin = []"
    using start(3,4) by auto
  from assms(4) have "fuel = (fuel - length subs) + length subs" by simp
  then have "(emit_step H ev ?arg ^^ fuel) ?init = (emit_step H ev ?arg ^^ (fuel - length subs)) ?fin"
    by (metis funpow_add comp_apply)
  then have "(emit_step H ev ?arg ^^ fuel) ?init = ?fin"
    using emit_steps_done [OF r] by simp
  then show ?thesis
    using assms(2) np r c wd by (simp add: emit_def Let_def)
qed

lemma remove_subs_filter:
  "map_of (subscriptions b) ev = Some (pre @ xs) \<Longrightarrow> \<forall>s \<in> set pre. \<not> P s \<Longrightarrow>
     \<exists>b'. remove_subs ev (filter P xs) b = (None, b')
        \<and> map_of (subscriptions b') ev = Some (pre @ filter (\<lambda>s. \<not> P s) xs)"
proof (induction xs arbitrary: b pre)
  case Nil
  then show ?case by simp
next
  case (Cons x xs)
  show ?case
  proof (cases "P x")
    case True
    with Cons.prems(2) have "x \<notin> set pre" by blast
    then have rm: "remove1 x (pre @ x # xs) = pre @ xs"
      by (simp add: remove1_append)
    let ?b = "b\<lparr>subscriptions := AList.update ev (pre @ xs) (subscriptions b)\<rparr>"
    have m: "map_of (subscriptions ?b) ev = Some (pre @ xs)"
      by (simp add: update_conv')
    from Cons.IH [OF m Cons.prems(2)] True Cons.prems(1) rm show ?thesis by simp
  next
    case False
    from Cons.prems(1) have m: "map_of (subscriptions b) ev = Some ((pre @ [x]) @ xs)" by simp
    from False Cons.prems(2) have "\<forall>s \<in> set (pre @ [x]). \<not> P s" by simp
    from Cons.IH [OF m this] False show ?thesis by simp
  qed
qed

lemma emit_steps_returning:
  assumes "\<forall>h a v. fst (H h a v) = Returned \<and> snd (snd (H h a v)) = []"
  shows "remaining st = pre \<Longrightarrow> \<not> propagated st \<Longrightarrow>
     bus_now ((emit_step H ev arg ^^ length pre) st) = bus_now st
     \<and> to_remove ((emit_step H ev arg ^^ length pre) st) = to_remove st @ filter once pre"
proof (induction pre arbitrary: st)
  case Nil
  then show ?case by simp
next
  case (Cons s pre)
  let ?nxt = "emit_step H ev arg st"
  have nb: "fst (H (handler s) arg (world st)) \<noteq> RaisedBase"
    and na: "snd (snd (H (handler s) arg (world st))) = []"
    and ret: "fst (H (handler s) arg (world st)) = Returned"
    using assms by simp_all
  have one: "bus_now ?nxt = bus_now st \<and> remaining ?nxt = pre \<and> \<not> propagated ?nxt
       \<and> to_remove ?nxt =
           to_remove st @ (if fst (H (handler s) arg (world st)) = Returned \<and> once s
                           then [s] else [])"
    using Cons.prems(1) Cons.prems(2) nb na by (rule emit_step_quiet)
  then have r1: "remaining ?nxt = pre" and p1: "\<not> propagated ?nxt" by simp_all
  have pow: "(emit_step H ev arg ^^ length (s # pre)) st = (emit_step H ev arg ^^ length pre) ?nxt"
    by (simp add: funpow_swap1)
  from Cons.IH [OF r1 p1] one ret pow show ?case by simp
qed

lemma emit_removes_once_when_returned:
  assumes "\<forall>h a v. fst (H h a v) = Returned \<and> snd (snd (H h a v)) = []"
    and "map_of (subscriptions bus) ev = Some subs" and "length subs \<le> fuel"
  shows "\<exists>bus'. emit fuel H bus ev payload w =
            Some (None, bus', worlds_after H (payload_or_empty payload) subs w,
                  calls_of (payload_or_empty payload) subs)
       \<and> subscriptions_for bus' ev = filter (\<lambda>s. \<not> once s) subs"
proof -
  let ?arg = "payload_or_empty payload"
  let ?fin = "(emit_step H ev ?arg ^^ length subs) (emit_start bus subs w)"
  from assms(1) have roe: "raises_only_exceptions H" and ns: "never_subscribes_to H ev"
    by (simp_all add: raises_only_exceptions_def never_subscribes_to_def)
  have "remaining (emit_start bus subs w) = subs" "\<not> propagated (emit_start bus subs w)"
    by (simp_all add: emit_start_def)
  from emit_steps_returning [OF assms(1) this, of ev ?arg]
  have b: "bus_now ?fin = bus" and tr: "to_remove ?fin = filter once subs"
    by (simp_all add: emit_start_def)
  from assms(2) have "map_of (subscriptions bus) ev = Some ([] @ subs)" by simp
  from remove_subs_filter [OF this, of once]
  obtain bus' where rs: "remove_subs ev (filter once subs) bus = (None, bus')"
    and m: "map_of (subscriptions bus') ev = Some (filter (\<lambda>s. \<not> once s) subs)"
    by auto
  from emit_finished [OF roe assms(2) ns assms(3), of payload w] b tr rs m show ?thesis
    by (simp add: subscriptions_for_def)
qed

section \<open>Properties of the broadcaster\<close>

lemma update_not_Nil: "AList.update k v al \<noteq> []"
  by (cases al) auto

lemma delete_Nil_lookup: "AList.delete k al = [] \<Longrightarrow> k' \<noteq> k \<Longrightarrow> map_of al k' = None"
  by (metis delete_conv' fun_upd_other map_of.simps(1))

lemma scoped_connect:
  "t \<noteq> [] \<Longrightarrow> i \<noteq> [] \<Longrightarrow>
   scoped_connections (connect mgr c (Some t) (Some i)) t' i'
     = (if t' = t \<and> i' = i then scoped_connections mgr t i @ [c]
        else scoped_connections mgr t' i')"
  by (auto simp: connect_def scoped_connections_def Let_def update_conv' split: option.splits)

lemma scoped_connect_global:
  "scope_of t i = None \<Longrightarrow>
   scoped_connections (connect mgr c t i) t' i' = scoped_connections mgr t' i'
   \<and> global_connections (connect mgr c t i) = global_connections mgr @ [c]"
  by (cases t; cases i) (auto simp: connect_def scoped_connections_def split: if_splits)

lemma global_connect_scoped:
  "t \<noteq> [] \<Longrightarrow> i \<noteq> [] \<Longrightarrow>
   global_connections (connect mgr c (Some t) (Some i)) = global_connections mgr"
  by (simp add: connect_def Let_def)

lemma scoped_disconnect:
  assumes "t \<noteq> []" and "i \<noteq> []"
  shows "scoped_connections (disconnect mgr c (Some t) (Some i)) t' i'
     = (if t' = t \<and> i' = i then remove1 c (scoped_connections mgr t i)
        else scoped_connections mgr t' i')"
proof (cases "map_of (active_connections mgr) t")
  case None
  then show ?thesis
    using assms by (auto simp: disconnect_def scoped_connections_def)
next
  case (Some by_id)
  show ?thesis
  proof (cases "map_of by_id i")
    case None
    with Some show ?thesis
      using assms by (auto simp: disconnect_def scoped_connections_def)
  next
    case (Some cs)
    let ?cs = "remove1 c cs"
    let ?by = "if ?cs = [] then AList.delete i by_id else AList.update i ?cs by_id"
    have look: "map_of ?by = (map_of by_id)(i := (if ?cs = [] then None else Some ?cs))"
      by (simp add: delete_conv' update_conv')
    have empty: "map_of by_id k = None" if "?by = []" "k \<noteq> i" for k
      using that delete_Nil_lookup [of i by_id k] update_not_Nil [of i ?cs by_id]
      by (auto split: if_splits)
    have empty_cs: "?cs = []" if "?by = []"
      using that update_not_Nil [of i ?cs by_id] by (auto split: if_splits)
    from \<open>map_of (active_connections mgr) t = Some by_id\<close> Some
    have d: "active_connections (disconnect mgr c (Some t) (Some i))
        = (if ?by = [] then AList.delete t (active_connections mgr)
           else AList.update t ?by (active_connections mgr))"
      using \<open>t \<noteq> []\<close> \<open>i \<noteq> []\<close> by (simp add: disconnect_def Let_def)
    show ?thesis
    proof (cases "?by = []")
      case True
      with d have a: "map_of (active_connections (disconnect mgr c (Some t) (Some i)))
          = (map_of (active_connections mgr))(t := None)"
        by (simp add: delete_conv')
      show ?thesis
        using a \<open>map_of (active_connections mgr) t = Some by_id\<close> Some
          empty [OF True] empty_cs [OF True]
        by (auto simp: scoped_connections_def split: option.splits)
    next
      case False
      with d have a: "map_of (active_connections (disconnect mgr c (Some t) (Some i)))
          = (map_of (active_connections mgr))(t \<mapsto> ?by)"
        by (simp add: update_conv')
      show ?thesis
        using a look \<open>map_of (active_connections mgr) t = Some by_id\<close> Some
        by (auto simp: scoped_connections_def split: option.splits)
    qed
  qed
qed

lemma global_disconnect_scoped:
  "t \<noteq> [] \<Longrightarrow> i \<noteq> [] \<Longrightarrow>
   global_connections (disconnect mgr c (Some t) (Some i)) = global_connections mgr"
  by (simp add: disconnect_def Let_def split: option.splits)

lemma scoped_disconnect_global:
  "scope_of t i = None \<Longrightarrow>
   scoped_connections (disconnect mgr c t i) t' i' = scoped_connections mgr t' i'
   \<and> global_connections (disconnect mgr c t i) = remove1 c (global_connections mgr)"
  by (cases t; cases i) (auto simp: disconnect_def scoped_connections_def split: if_splits)

lemma scoped_evict:
  "scoped_connections (evict c mgr) t i = remove1 c (scoped_connections mgr t i)
   \<and> global_connections (evict c mgr) = remove1 c (global_connections mgr)"
  by (auto simp: evict_def scoped_connections_def map_of_map split: option.splits)

lemma scope_of_Some: "scope_of t i = Some (a, b) \<Longrightarrow> t = Some a \<and> i = Some b \<and> a \<noteq> [] \<and> b \<noteq> []"
  by (cases t; cases i) (auto split: if_splits)

text \<open>Each change of the registry is the specification's change.\<close>

lemma refines_step: "refines mgr r \<Longrightarrow> refines (apply_op x mgr) (spec_op x r)"
proof (cases x)
  case (Connect c t i)
  assume R: "refines mgr r"
  show ?thesis
  proof (cases "scope_of t i")
    case None
    with R Connect scoped_connect_global [OF None, of mgr c] show ?thesis
      by (simp add: refines_def)
  next
    case (Some k)
    obtain a b where k: "k = (a, b)" by (cases k)
    with Some scope_of_Some have "t = Some a" "i = Some b" "a \<noteq> []" "b \<noteq> []" by blast+
    with R Connect Some k show ?thesis
      by (auto simp: refines_def scoped_connect global_connect_scoped)
  qed
next
  case (Disconnect c t i)
  assume R: "refines mgr r"
  show ?thesis
  proof (cases "scope_of t i")
    case None
    with R Disconnect scoped_disconnect_global [OF None, of mgr c] show ?thesis
      by (simp add: refines_def)
  next
    case (Some k)
    obtain a b where k: "k = (a, b)" by (cases k)
    with Some scope_of_Some have "t = Some a" "i = Some b" "a \<noteq> []" "b \<noteq> []" by blast+
    with R Disconnect Some k show ?thesis
      by (auto simp: refines_def scoped_disconnect global_disconnect_scoped)
  qed
next
  case (Evict c)
  assume "refines mgr r"
  with Evict show ?thesis
    by (simp add: refines_def scoped_evict)
qed

lemma refines_fold: "refines mgr r \<Longrightarrow> refines (fold apply_op ops mgr) (fold spec_op ops r)"
  by (induction ops arbitrary: mgr r) (simp_all add: refines_step)

lemma refines_after: "refines (registry_after ops) (spec_after ops)"
  unfolding registry_after_def spec_after_def
  by (rule refines_fold)
     (simp add: refines_def new_connection_manager_def spec_empty_def scoped_connections_def)

lemma in_remove1D: "c \<in> set (remove1 x xs) \<Longrightarrow> c \<in> set xs"
  using set_remove1_subset [of x xs] by blast

lemma spec_member_connected:
  "(c \<in> set (spec_scoped (fold spec_op ops r) k) \<longrightarrow>
      c \<in> set (spec_scoped r k) \<or> (\<exists>t i. Connect c t i \<in> set ops \<and> scope_of t i = Some k))
   \<and> (c \<in> set (spec_global (fold spec_op ops r)) \<longrightarrow>
      c \<in> set (spec_global r) \<or> (\<exists>t i. Connect c t i \<in> set ops \<and> scope_of t i = None))"
proof (induction ops arbitrary: r)
  case Nil
  show ?case by simp
next
  case (Cons x ops)
  have step: "(c \<in> set (spec_scoped (spec_op x r) k) \<longrightarrow>
        c \<in> set (spec_scoped r k) \<or> (\<exists>t i. x = Connect c t i \<and> scope_of t i = Some k))
      \<and> (c \<in> set (spec_global (spec_op x r)) \<longrightarrow>
        c \<in> set (spec_global r) \<or> (\<exists>t i. x = Connect c t i \<and> scope_of t i = None))"
    by (cases x) (auto split: option.splits if_splits dest: in_remove1D)
  from Cons.IH [of "spec_op x r"] step show ?case
    by (simp, blast)
qed

text \<open>
  Claim C9 (broadcast scoping). For every registry state, reached from the empty
  registry by any sequence of connects, disconnects and removals after failed sends:
  a broadcast to \<open>(t, i)\<close> sends the encoded message to the connections scoped to
  \<open>(t, i)\<close>, in order of registration, then to the global connections, and to no other;
  a connection whose every registration is scoped to another pair is not sent to.
\<close>

theorem broadcast_scoping:
  "snd (broadcast_to_entity send_ok json_dumps (registry_after ops) t i message)
     = map (\<lambda>c. (c, json_dumps message))
         (spec_scoped (spec_after ops) (t, i) @ spec_global (spec_after ops))
   \<and> ((\<forall>t' i'. Connect c t' i' \<in> set ops \<longrightarrow> (\<exists>k. scope_of t' i' = Some k \<and> k \<noteq> (t, i)))
        \<longrightarrow> c \<notin> fst ` set (snd (broadcast_to_entity send_ok json_dumps
                                     (registry_after ops) t i message)))"
proof -
  have R: "refines (registry_after ops) (spec_after ops)" by (rule refines_after)
  then have sent: "snd (broadcast_to_entity send_ok json_dumps (registry_after ops) t i message)
     = map (\<lambda>c. (c, json_dumps message))
         (spec_scoped (spec_after ops) (t, i) @ spec_global (spec_after ops))"
    by (simp add: broadcast_to_entity_def send_to_connections_def Let_def refines_def)
  have "c \<notin> set (spec_scoped (spec_after ops) (t, i)) \<and> c \<notin> set (spec_global (spec_after ops))"
    if h: "\<forall>t' i'. Connect c t' i' \<in> set ops \<longrightarrow> (\<exists>k. scope_of t' i' = Some k \<and> k \<noteq> (t, i))"
  proof -
    have e: "spec_scoped spec_empty (t, i) = []" "spec_global spec_empty = []"
      by (simp_all add: spec_empty_def)
    from spec_member_connected [of c ops spec_empty "(t, i)"] e
    have 1: "c \<in> set (spec_scoped (spec_after ops) (t, i)) \<longrightarrow>
          (\<exists>t' i'. Connect c t' i' \<in> set ops \<and> scope_of t' i' = Some (t, i))"
      and 2: "c \<in> set (spec_global (spec_after ops)) \<longrightarrow>
          (\<exists>t' i'. Connect c t' i' \<in> set ops \<and> scope_of t' i' = None)"
      by (simp_all add: spec_after_def)
    from 1 h have "c \<notin> set (spec_scoped (spec_after ops) (t, i))" by fastforce
    moreover from 2 h have "c \<notin> set (spec_global (spec_after ops))" by fastforce
    ultimately show ?thesis by simp
  qed
  with sent show ?thesis
    by (auto simp: image_iff)
qed

theorem broadcast_scoping_witness:
  "snd (broadcast_to_entity all_send_ok test_dumps (registry_after scoped_ops) ''T'' ''1''
          (VDict [(VStr ''type'', VStr ''client_effects'')]))
     = [(1, ''<json>''), (3, ''<json>'')]
   \<and> spec_scoped (spec_after scoped_ops) (''T'', ''2'') = [2]
   \<and> 2 \<notin> fst ` set (snd (broadcast_to_entity all_send_ok test_dumps (registry_after scoped_ops)
                           ''T'' ''1'' (VDict [(VStr ''type'', VStr ''client_effects'')])))"
  using broadcast_scoping [of all_send_ok test_dumps scoped_ops "''T''" "''1''"
      "VDict [(VStr ''type'', VStr ''client_effects'')]" 2]
  by (auto simp: scoped_ops_def spec_after_def spec_empty_def test_dumps_def)

section \<open>Properties of the effect executor\<close>

lemma py_index_0: "xs \<noteq> [] \<Longrightarrow> py_index xs 0 = Inr (hd xs)"
  by (cases xs) (simp_all add: py_index_def)

lemma set_target_no_assignment:
  "no_assignment target context \<Longrightarrow> set_target ga target v context = Inr context"
  by (auto simp: no_assignment_def binding_parts_def set_target_def Let_def bind_err_def
      py_index_0 split_on_not_Nil split: val.splits option.splits if_splits)

lemma set_target_into_dict:
  "assigns_into_dict ga target context \<Longrightarrow> \<exists>c. set_target ga target v context = Inr c"
  by (auto simp: assigns_into_dict_def binding_parts_def set_target_def Let_def bind_err_def
      py_index_0 split_on_not_Nil split: val.splits option.splits if_splits)

text \<open>
  Claim C8, as amended. For every \<open>set\<close> effect with a target (and any context), when no
  assignment is attempted (the target is not a binding string, its root is absent from
  the context, or it has a single segment) or the walk ends at a dict, \<open>_execute_set\<close>
  returns the resolved value and appends exactly one result, with \<open>success\<close> true; when
  no assignment is attempted the context is unchanged.
\<close>

theorem execute_set_records_success:
  assumes "effect = tag # target # rest"
    and "no_assignment target context \<or> assigns_into_dict ga target context"
  shows "\<exists>v context'. execute_set ga ex effect context =
           Inr (v,
                ex\<lparr>effect_results := effect_results ex @
                     [VDict [(VStr ''effect'', VStr ''set''), (VStr ''target'', target),
                             (VStr ''value'', v), (VStr ''success'', VBool True)]]\<rparr>,
                context')
         \<and> (no_assignment target context \<longrightarrow> context' = context)"
proof -
  obtain v where v: "(if length effect > 2 then resolve_binding ga (effect ! 2) context
                      else Inr VNone) = Inr v"
  proof (cases "length effect > 2")
    case True
    then show ?thesis using that resolve_binding_total [of ga "effect ! 2" "context"] by auto
  next
    case False
    then show ?thesis using that by auto
  qed
  obtain c where c: "set_target ga target v context = Inr c"
    and unchanged: "no_assignment target context \<longrightarrow> c = context"
    using assms(2) set_target_no_assignment [of target "context" ga v]
      set_target_into_dict [of ga target "context" v]
    by (cases "no_assignment target context") auto
  have "py_index effect 1 = Inr target"
    using assms(1) by (simp add: py_index_def)
  with v c unchanged show ?thesis
    by (simp add: execute_set_def bind_err_def set_result_def)
qed

theorem execute_set_records_success_witness:
  "no_assignment (VStr ''@missing.field'') []
   \<and> execute_set no_attrs (new_executor ()) [VStr ''set'', VStr ''@missing.field'', VStr ''x''] []
      = Inr (VStr ''x'',
             \<lparr> repository = (), data = [], client_effects = [],
               effect_results = [VDict [(VStr ''effect'', VStr ''set''),
                                        (VStr ''target'', VStr ''@missing.field''),
                                        (VStr ''value'', VStr ''x''),
                                        (VStr ''success'', VBool True)]] \<rparr>,
             [])"
  using execute_set_records_success [of "[VStr ''set'', VStr ''@missing.field'', VStr ''x'']"
      "VStr ''set''" "VStr ''@missing.field''" "[VStr ''x'']" "[]" no_attrs "new_executor ()"]
  by (simp add: no_assignment_def binding_parts_def starts_with_def execute_set_def bind_err_def
      py_index_def resolve_binding_def set_target_def set_result_def new_executor_def Let_def)

text \<open>
  Claim C8 as stated fails: with \<open>entity\<close> null in the context, the walk for
  \<open>@entity.status\<close> ends at \<open>None\<close>, \<open>setattr\<close> raises, and no result is appended.
\<close>

theorem execute_set_on_null_raises:
  "execute_set no_attrs (new_executor ())
     [VStr ''set'', VStr ''@entity.status'', VStr ''done''] [(VStr ''entity'', VNone)]
   = Inl AttributeError"
  by (simp add: execute_set_def bind_err_def py_index_def resolve_binding_def starts_with_def
      set_target_def setattr_error_def key_eq_def Let_def)

text \<open>In every other case the assignment raises, and nothing is appended.\<close>

lemma set_target_raises:
  "\<not> no_assignment target context \<Longrightarrow> \<not> assigns_into_dict ga target context
     \<Longrightarrow> \<exists>e. set_target ga target v context = Inl e"
  by (auto simp: no_assignment_def assigns_into_dict_def binding_parts_def set_target_def Let_def
      bind_err_def py_index_0 split_on_not_Nil split: val.splits option.splits if_splits)

lemma execute_set_raises_otherwise:
  assumes "effect = tag # target # rest"
    and "\<not> no_assignment target context" and "\<not> assigns_into_dict ga target context"
  shows "\<exists>e. execute_set ga ex effect context = Inl e"
proof -
  obtain v where v: "(if length effect > 2 then resolve_binding ga (effect ! 2) context
                      else Inr VNone) = Inr v"
  proof (cases "length effect > 2")
    case True
    then show ?thesis using that resolve_binding_total [of ga "effect ! 2" "context"] by auto
  next
    case False
    then show ?thesis using that by auto
  qed
  obtain e where "set_target ga target v context = Inl e"
    using set_target_raises [OF assms(2,3)] by blast
  moreover have "py_index effect 1 = Inr target"
    using assms(1) by (simp add: py_index_def)
  ultimately show ?thesis
    using v by (simp add: execute_set_def bind_err_def)
qed

text \<open>
  Claim C1, as amended. For every context and dispatcher state, \<open>execute\<close> does not raise
  on an empty effect or on an effect whose tag is a string that is none of the
  recognized tags: it returns null and leaves the dispatcher and the context as they
  are.
\<close>

theorem execute_unrecognized_noop:
  "execute ga ops torch ex [] context = Inr (VNone, ex, context)
   \<and> (\<not> recognized_tag t \<longrightarrow>
        execute ga ops torch ex (VStr t # args) context = Inr (VNone, ex, context))"
  by (simp add: execute_def recognized_tag_def bind_err_def py_index_def)

theorem execute_unrecognized_noop_witness:
  "\<not> recognized_tag ''unknown_effect''
   \<and> execute no_attrs (in_memory test_uuid) no_torch (new_executor ([], 0))
        [VStr ''unknown_effect'', VStr ''arg''] []
      = Inr (VNone, new_executor ([], 0), [])"
  using execute_unrecognized_noop [of no_attrs "in_memory test_uuid" no_torch
      "new_executor ([], 0)" "[]" "''unknown_effect''" "[VStr ''arg'']"]
  by (simp add: recognized_tag_def starts_with_def)

text \<open>
  Claim C1 as stated fails: \<open>["fetch"]\<close>, a recognized tag with fewer arguments than its
  branch reads, raises \<open>IndexError\<close> at \<open>effect[1]\<close>.
\<close>

theorem execute_fetch_without_type_raises:
  "execute no_attrs (in_memory test_uuid) no_torch (new_executor ([], 0)) [VStr ''fetch''] []
   = Inl IndexError"
  by (simp add: execute_def execute_fetch_def bind_err_def py_index_def)

text \<open>
  Claim C10, as amended. For every \<open>persist\<close> \<open>delete\<close> effect naming an entity type, every
  context whose \<open>entityId\<close> is present and truthy (neither null nor empty), and every
  repository whose \<open>delete\<close> returns for that type and id, whatever it returns (false,
  when no such entity is stored): \<open>_execute_persist\<close> returns
  \<open>{deleted: true, id: entityId}\<close> and appends one result with \<open>success\<close> true.
\<close>

theorem persist_delete_ignores_result:
  assumes "effect = tag # VStr ''delete'' # entity_type # rest"
    and "dict_lookup context (VStr ''entityId'') = Some entity_id"
    and "py_truthy entity_id"
    and "repo_delete ops (repository ex) entity_type entity_id = Inr (b, r)"
  shows "execute_persist ga ops ex effect context =
           Inr (VDict [(VStr ''deleted'', VBool True), (VStr ''id'', entity_id)],
                ex\<lparr>repository := r,
                   effect_results := effect_results ex @
                     [VDict [(VStr ''effect'', VStr ''persist''),
                             (VStr ''action'', VStr ''delete''),
                             (VStr ''entityType'', entity_type),
                             (VStr ''data'',
                              VDict [(VStr ''deleted'', VBool True), (VStr ''id'', entity_id)]),
                             (VStr ''success'', VBool True)]]\<rparr>,
                context)"
proof -
  obtain dat where dat: "(if length effect > 3 then resolve_binding ga (effect ! 3) context
                          else Inr (VDict [])) = Inr dat"
  proof (cases "length effect > 3")
    case True
    then show ?thesis using that resolve_binding_total [of ga "effect ! 3" "context"] by auto
  next
    case False
    then show ?thesis using that by auto
  qed
  have 1: "py_index effect 1 = Inr (VStr ''delete'')" and 2: "py_index effect 2 = Inr entity_type"
    using assms(1) by (simp_all add: py_index_def)
  have 3: "dict_get context (VStr ''entityId'') = entity_id"
    using assms(2) by (simp add: dict_get_def)
  show ?thesis
    unfolding execute_persist_def
    by (simp add: 1 2 3 dat assms(3,4) bind_err_def persist_result_def Let_def del: One_nat_def)
qed

theorem persist_delete_ignores_result_witness:
  "repo_delete (in_memory test_uuid) ([], 0) (VStr ''Task'') (VStr ''gone'') = Inr (VBool False, ([], 0))
   \<and> execute_persist no_attrs (in_memory test_uuid) (new_executor ([], 0))
        [VStr ''persist'', VStr ''delete'', VStr ''Task''] [(VStr ''entityId'', VStr ''gone'')]
      = Inr (VDict [(VStr ''deleted'', VBool True), (VStr ''id'', VStr ''gone'')],
             \<lparr> repository = ([], 0), data = [], client_effects = [],
               effect_results =
                 [VDict [(VStr ''effect'', VStr ''persist''),
                         (VStr ''action'', VStr ''delete''),
                         (VStr ''entityType'', VStr ''Task''),
                         (VStr ''data'',
                          VDict [(VStr ''deleted'', VBool True), (VStr ''id'', VStr ''gone'')]),
                         (VStr ''success'', VBool True)]] \<rparr>,
             [(VStr ''entityId'', VStr ''gone'')])"
  using persist_delete_ignores_result [of "[VStr ''persist'', VStr ''delete'', VStr ''Task'']"
      "VStr ''persist''" "VStr ''Task''" "[]" "[(VStr ''entityId'', VStr ''gone'')]" "VStr ''gone''"
      "in_memory test_uuid" "new_executor ([], 0)" "VBool False" "([], 0)" no_attrs]
  by (simp add: in_memory_def mem_delete_def bind_err_def new_executor_def key_eq_def)

text \<open>
  Claim C10 as stated fails: with \<open>entityId\<close> present but empty, the \<open>delete\<close> branch is
  skipped, the value returned is null and the result appended has \<open>success\<close> false.
\<close>

theorem persist_delete_empty_id_fails:
  "execute_persist no_attrs (in_memory test_uuid) (new_executor ([], 0))
     [VStr ''persist'', VStr ''delete'', VStr ''Task''] [(VStr ''entityId'', VStr '''')]
   = Inr (VNone,
          \<lparr> repository = ([], 0), data = [], client_effects = [],
            effect_results =
              [VDict [(VStr ''effect'', VStr ''persist''),
                      (VStr ''action'', VStr ''delete''),
                      (VStr ''entityType'', VStr ''Task''),
                      (VStr ''data'', VNone),
                      (VStr ''success'', VBool False)]] \<rparr>,
          [(VStr ''entityId'', VStr '''')])"
  by (simp add: execute_persist_def bind_err_def py_index_def persist_result_def new_executor_def
      dict_get_def key_eq_def Let_def)

end
